theory Spec2Isabelle
  imports Complex_Main "HOL-Library.Word"
begin

section \<open>Numbers and errors\<close>

text \<open>
  The codec and the averaging pass of \<^verbatim>\<open>src/index.ts\<close> only ever hold whole numbers and
  the special values a division by zero can produce. \<open>Num n\<close> is the JavaScript number
  with the integer value \<open>n\<close>. The sums of the library stay far below \<open>2^53\<close> (at most 255
  per byte of a canvas buffer), where the arithmetic of doubles on whole numbers is exact.
  Fractions never reach the codec: the only division of the averaging pass is floored at
  once, and up to \<open>2^44\<close> pixels the rounding of the quotient does not change its floor
  (lemma \<open>floor_fl_quotient\<close>). The section on contrast, where fractions matter, models
  the rounding.
\<close>

datatype number = Num int | NaN | Infinity | NegInfinity

text \<open>
  Every \<^verbatim>\<open>throw new Error(...)\<close> and \<^verbatim>\<open>reject(new Error(...))\<close> of the source is one
  constructor, named after the failure it reports:
  \<^item> \<open>EnvironmentError\<close>: "computeAverageColor requires a browser environment with DOM access";
  \<^item> \<open>ContextError\<close>: "Could not get 2d context";
  \<^item> \<open>InvalidInputError\<close>: "Invalid image source type";
  \<^item> \<open>ImageLoadError\<close>: "Failed to load image";
  \<^item> \<open>PixelAccessError m\<close>: "Failed to process image: m", \<open>m\<close> the message of the caught exception;
  \<^item> \<open>InvalidFormat h\<close>: "Invalid hex color: h".
\<close>

datatype error =
    EnvironmentError
  | ContextError
  | InvalidInputError
  | ImageLoadError
  | PixelAccessError string
  | InvalidFormat string

section \<open>Luminance and contrast\<close>

subsection \<open>Arithmetic on doubles\<close>

text \<open>
  \<^verbatim>\<open>luminance\<close> and \<^verbatim>\<open>contrast\<close> compute on fractions, where every operation of
  JavaScript rounds its exact result to the nearest double, ties to the even mantissa.
  A double is modelled as the real number it denotes and \<open>fl\<close> is that rounding:
  \<open>expo x\<close> is the binary exponent of \<open>x\<close>, \<open>ulp x\<close> the distance of neighbouring doubles
  around \<open>x\<close> (53 bits of mantissa), and \<open>rne\<close> rounds to the nearest integer, ties to
  even. The exponent is not bounded: \<open>fl\<close> is the rounding of binary64 wherever the result
  is zero or a normal number, as everywhere in the computation on channels in \<open>[0, 255]\<close>.
  A numeric literal of the source denotes the double nearest to it, \<open>fl\<close> of the literal.
\<close>

definition rne :: "real \<Rightarrow> int" where
  "rne y =
     (let f = \<lfloor>y\<rfloor>
      in if y - of_int f < 1 / 2 then f
         else if 1 / 2 < y - of_int f then f + 1
         else if even f then f else f + 1)"

definition expo :: "real \<Rightarrow> int" where
  "expo x = \<lfloor>log 2 \<bar>x\<bar>\<rfloor>"

definition ulp :: "real \<Rightarrow> real" where
  "ulp x = 2 powr (of_int (expo x) - 52)"

definition fl :: "real \<Rightarrow> real" where
  "fl x = (if x = 0 then 0 else of_int (rne (x / ulp x)) * ulp x)"

subsection \<open>\<^verbatim>\<open>luminance\<close> and \<^verbatim>\<open>contrast\<close>\<close>

definition RED :: real where
  "RED = fl 0.2126"

definition GREEN :: real where
  "GREEN = fl 0.7152"

definition BLUE :: real where
  "BLUE = fl 0.0722"

definition GAMMA :: real where
  "GAMMA = fl 2.4"

text \<open>
  The callback that \<^verbatim>\<open>luminance\<close> maps over the three channels. ECMAScript leaves the
  precision of \<^verbatim>\<open>Math.pow\<close> to the implementation, so the function is a parameter,
  \<open>mathPow\<close>.
\<close>

definition linearize :: "(real \<Rightarrow> real \<Rightarrow> real) \<Rightarrow> real \<Rightarrow> real" where
  "linearize mathPow v0 =
     (let v = fl (v0 / 255)
      in if v \<le> fl 0.03928 then fl (v / fl 12.92)
         else mathPow (fl (fl (v + fl 0.055) / fl 1.055)) GAMMA)"

definition luminance :: "(real \<Rightarrow> real \<Rightarrow> real) \<Rightarrow> real \<Rightarrow> real \<Rightarrow> real \<Rightarrow> real" where
  "luminance mathPow r g b =
     (let a = map (linearize mathPow) [r, g, b]
      in fl (fl (fl (a ! 0 * RED) + fl (a ! 1 * GREEN)) + fl (a ! 2 * BLUE)))"

text \<open>
  \<open>None\<close> is a result that is not a finite number. An array with fewer than three entries
  reads \<^verbatim>\<open>undefined\<close>, which every operation of \<^verbatim>\<open>luminance\<close>, \<^verbatim>\<open>Math.max\<close> and
  \<^verbatim>\<open>Math.min\<close> turns into \<^verbatim>\<open>NaN\<close>; a denominator of zero (possible only for components
  below zero) gives an infinity or \<^verbatim>\<open>NaN\<close>.
\<close>

definition contrast ::
  "(real \<Rightarrow> real \<Rightarrow> real) \<Rightarrow> real list \<Rightarrow> real list \<Rightarrow> real option" where
  "contrast mathPow rgb1 rgb2 =
     (if length rgb1 < 3 \<or> length rgb2 < 3 then None
      else
        let lum1 = luminance mathPow (rgb1 ! 0) (rgb1 ! 1) (rgb1 ! 2);
            lum2 = luminance mathPow (rgb2 ! 0) (rgb2 ! 1) (rgb2 ! 2);
            brightest = max lum1 lum2;
            darkest = min lum1 lum2
        in if fl (darkest + fl 0.05) = 0 then None
           else Some (fl (fl (brightest + fl 0.05) / fl (darkest + fl 0.05))))"

section \<open>Hex / RGB codec\<close>

subsection \<open>\<^verbatim>\<open>Number.prototype.toString(16)\<close>\<close>

definition hexDigit :: "nat \<Rightarrow> char" where
  "hexDigit d = ''0123456789abcdef'' ! d"

fun digits16 :: "nat \<Rightarrow> string" where
  "digits16 n = (if n < 16 then [hexDigit n] else digits16 (n div 16) @ [hexDigit (n mod 16)])"

declare digits16.simps [simp del]

fun toString16 :: "number \<Rightarrow> string" where
  "toString16 (Num n) = (if n < 0 then CHR ''-'' # digits16 (nat (- n)) else digits16 (nat n))"
| "toString16 NaN = ''NaN''"
| "toString16 Infinity = ''Infinity''"
| "toString16 NegInfinity = ''-Infinity''"

subsection \<open>\<^verbatim>\<open>componentToHex\<close>, \<^verbatim>\<open>rgbToHex\<close>, \<^verbatim>\<open>rgbToHexString\<close>\<close>

definition componentToHex :: "number \<Rightarrow> string" where
  "componentToHex c = (let hex = toString16 c in if length hex = 1 then ''0'' @ hex else hex)"

definition rgbToHex :: "number \<Rightarrow> number \<Rightarrow> number \<Rightarrow> string" where
  "rgbToHex r g b = ''#'' @ componentToHex r @ componentToHex g @ componentToHex b"

definition rgbToHexString :: "number \<Rightarrow> number \<Rightarrow> number \<Rightarrow> string" where
  "rgbToHexString r g b = rgbToHex r g b"

subsection \<open>\<^verbatim>\<open>hexToRgb\<close>\<close>

text \<open>
  The character class \<^verbatim>\<open>[a-f\d]\<close> under the \<^verbatim>\<open>i\<close> flag: the ten ASCII digits and the
  letters a to f in either case.
\<close>

definition isHexDigit :: "char \<Rightarrow> bool" where
  "isHexDigit c = (c \<in> set ''0123456789abcdefABCDEF'')"

text \<open>
  \<^verbatim>\<open>/^#?([a-f\d]{2})([a-f\d]{2})([a-f\d]{2})$/i.exec(hex)\<close>: an optional \<^verbatim>\<open>#\<close>, then
  exactly six characters of the class up to the end of the input. The result is the three
  captures, or \<open>None\<close> for JavaScript's \<^verbatim>\<open>null\<close>.
\<close>

definition execHex :: "string \<Rightarrow> (string \<times> string \<times> string) option" where
  "execHex hex =
     (let body = (case hex of [] \<Rightarrow> hex | c # rest \<Rightarrow> if c = CHR ''#'' then rest else hex)
      in if length body = 6 \<and> list_all isHexDigit body
         then Some (take 2 body, take 2 (drop 2 body), take 2 (drop 4 body))
         else None)"

definition digitValue :: "char \<Rightarrow> nat" where
  "digitValue c =
     (let k = (of_char c :: nat)
      in if 48 \<le> k \<and> k \<le> 57 then k - 48
         else if 97 \<le> k \<and> k \<le> 102 then k - 87
         else k - 55)"

text \<open>
  \<^verbatim>\<open>parseInt(s, 16)\<close> on the strings \<^verbatim>\<open>hexToRgb\<close> passes, the captures of the pattern:
  the longest prefix of hex digits read in base 16, \<^verbatim>\<open>NaN\<close> when that prefix is empty.
  Leading white space, a sign and the \<^verbatim>\<open>0x\<close> prefix, which the builtin also accepts,
  cannot occur in a capture and are left out.
\<close>

definition parseInt16 :: "string \<Rightarrow> number" where
  "parseInt16 s =
     (let ds = takeWhile isHexDigit s
      in if ds = [] then NaN
         else Num (int (foldl (\<lambda>acc c. 16 * acc + digitValue c) 0 ds)))"

definition hexToRgb :: "string \<Rightarrow> error + number list" where
  "hexToRgb hex =
     (case execHex hex of
        None \<Rightarrow> Inl (InvalidFormat hex)
      | Some (g1, g2, g3) \<Rightarrow> Inr [parseInt16 g1, parseInt16 g2, parseInt16 g3])"

section \<open>Average colour: the pass over the pixel buffer\<close>

text \<open>
  Lines 123 to 140 of \<^verbatim>\<open>computeAverageColor\<close>. The buffer is the
  \<^verbatim>\<open>Uint8ClampedArray\<close> of an \<^verbatim>\<open>ImageData\<close>: bytes, four per pixel.
\<close>

text \<open>\<^verbatim>\<open>+=\<close> on numbers.\<close>

fun plusNum :: "number \<Rightarrow> number \<Rightarrow> number" where
  "plusNum (Num a) (Num b) = Num (a + b)"
| "plusNum NaN _ = NaN"
| "plusNum _ NaN = NaN"
| "plusNum Infinity NegInfinity = NaN"
| "plusNum NegInfinity Infinity = NaN"
| "plusNum Infinity _ = Infinity"
| "plusNum _ Infinity = Infinity"
| "plusNum NegInfinity _ = NegInfinity"
| "plusNum _ NegInfinity = NegInfinity"

text \<open>
  \<^verbatim>\<open>data[i]\<close> as an operand of \<^verbatim>\<open>+=\<close>: off the end of the array the read is
  \<^verbatim>\<open>undefined\<close>, which the addition turns into \<^verbatim>\<open>NaN\<close>.
\<close>

definition readByte :: "8 word list \<Rightarrow> nat \<Rightarrow> number" where
  "readByte data i = (if i < length data then Num (uint (data ! i)) else NaN)"

text \<open>The \<^verbatim>\<open>for (let i = 0; i < imageData.data.length; i += 4)\<close> loop, from index \<open>i\<close> on.\<close>

function sumLoop ::
  "8 word list \<Rightarrow> nat \<Rightarrow> number \<times> number \<times> number \<Rightarrow> number \<times> number \<times> number" where
  "sumLoop data i (r, g, b) =
     (if i < length data
      then sumLoop data (i + 4)
             (plusNum r (readByte data i),
              plusNum g (readByte data (i + 1)),
              plusNum b (readByte data (i + 2)))
      else (r, g, b))"
  by pat_completeness auto
termination
  by (relation "measure (\<lambda>(data, i, acc). length data - i)") auto

declare sumLoop.simps [simp del]

text \<open>
  \<^verbatim>\<open>Math.floor(s / count)\<close> for a channel sum \<open>s\<close> and the pixel count, which is a length
  divided by four and so never negative. A zero count gives \<^verbatim>\<open>NaN\<close> for \<open>0 / 0\<close> and an
  infinity otherwise; \<^verbatim>\<open>Math.floor\<close> keeps all three.
\<close>

fun floorDiv :: "number \<Rightarrow> rat \<Rightarrow> number" where
  "floorDiv (Num s) count =
     (if count = 0 then (if s = 0 then NaN else if 0 < s then Infinity else NegInfinity)
      else Num \<lfloor>of_int s / count\<rfloor>)"
| "floorDiv NaN count = NaN"
| "floorDiv Infinity count = Infinity"
| "floorDiv NegInfinity count = NegInfinity"

definition averageColor :: "8 word list \<Rightarrow> string" where
  "averageColor data =
     (let count = (of_nat (length data) / 4 :: rat);
          (r, g, b) = sumLoop data 0 (Num 0, Num 0, Num 0)
      in rgbToHex (floorDiv r count) (floorDiv g count) (floorDiv b count))"

section \<open>Average colour: the host and the asynchronous operation\<close>

text \<open>
  The page holds image elements at addresses; \<^verbatim>\<open>new Image()\<close> takes the next free one.
  An element has the fields the operation reads or writes.
\<close>

type_synonym addr = nat

datatype handler = PageScript nat | ProcessImage | RejectLoad

record imageElement =
  src :: string
  crossOrigin :: "string option"
  width :: nat
  height :: nat
  onload :: "handler option"
  onerror :: "handler option"

definition blankImage :: imageElement where
  "blankImage =
     \<lparr>src = [], crossOrigin = None, width = 0, height = 0, onload = None, onerror = None\<rparr>"

datatype fileObject = File string

text \<open>
  The argument of \<^verbatim>\<open>computeAverageColor\<close>: an image element of the page, a string, a
  \<^verbatim>\<open>File\<close>, or any other value (the last \<^verbatim>\<open>else\<close> of the dispatch).
\<close>

datatype imageSource = Element addr | Locator string | Blob fileObject | Unsupported

text \<open>The calls the operation makes on the host, in the order it makes them.\<close>

datatype effect =
    CreateCanvas
  | HideCanvas
  | GetContext
  | NewImage addr
  | CreateObjectURL fileObject string
  | ResizeCanvas nat nat
  | DrawImage addr
  | GetImageData nat nat
  | RevokeObjectURL string

record host =
  images :: "addr \<Rightarrow> imageElement"
  nextAddr :: addr
  trace :: "effect list"

text \<open>
  What the host provides: \<^verbatim>\<open>window\<close>, \<^verbatim>\<open>document\<close>, a 2d context from
  \<^verbatim>\<open>canvas.getContext("2d")\<close>, and the URL that \<^verbatim>\<open>URL.createObjectURL\<close> hands out.
\<close>

record env =
  hasWindow :: bool
  hasDocument :: bool
  hasContext2d :: bool
  objectURL :: "fileObject \<Rightarrow> string"

text \<open>
  What the host answers after \<^verbatim>\<open>img.src\<close> is set: the load event with the decoded size
  and what \<^verbatim>\<open>drawImage\<close> and \<^verbatim>\<open>getImageData\<close> then do (either may throw, with a
  message), the error event, or no event at all.
\<close>

datatype readback = DrawThrows string | ReadThrows string | Pixels "8 word list"

datatype decode = Loaded nat nat readback | LoadFailed | NeverSignals

datatype outcome = Resolved string | Rejected error | Pending

definition emit :: "effect \<Rightarrow> host \<Rightarrow> host" where
  "emit e h = h\<lparr>trace := trace h @ [e]\<rparr>"

definition update :: "addr \<Rightarrow> (imageElement \<Rightarrow> imageElement) \<Rightarrow> host \<Rightarrow> host" where
  "update a f h = h\<lparr>images := (images h)(a := f (images h a))\<rparr>"

definition newImage :: "host \<Rightarrow> addr \<times> host" where
  "newImage h =
     (let a = nextAddr h
      in (a, emit (NewImage a) (h\<lparr>images := (images h)(a := blankImage), nextAddr := Suc a\<rparr>)))"

text \<open>Lines 96 to 106: the dispatch on the kind of source.\<close>

fun setSource :: "env \<Rightarrow> imageSource \<Rightarrow> addr \<Rightarrow> host \<Rightarrow> error + host" where
  "setSource e (Element p) img h =
     Inr (update img
            (\<lambda>i. i\<lparr>src := src (images h p), crossOrigin := crossOrigin (images h p)\<rparr>) h)"
| "setSource e (Locator s) img h =
     Inr (update img (\<lambda>i. i\<lparr>src := s, crossOrigin := Some ''anonymous''\<rparr>) h)"
| "setSource e (Blob f) img h =
     Inr (update img (\<lambda>i. i\<lparr>src := objectURL e f\<rparr>)
            (emit (CreateObjectURL f (objectURL e f)) h))"
| "setSource e Unsupported img h = Inl InvalidInputError"

text \<open>Lines 143 to 146: \<^verbatim>\<open>if (imageSource instanceof File) URL.revokeObjectURL(img.src)\<close>.\<close>

fun cleanUp :: "imageSource \<Rightarrow> addr \<Rightarrow> host \<Rightarrow> host" where
  "cleanUp (Blob f) img h = emit (RevokeObjectURL (src (images h img))) h"
| "cleanUp _ img h = h"

text \<open>
  Lines 109 to 156, \<^verbatim>\<open>img.onload\<close>: an exception of \<^verbatim>\<open>drawImage\<close> or
  \<^verbatim>\<open>getImageData\<close> leaves the \<^verbatim>\<open>try\<close> block for the \<^verbatim>\<open>catch\<close>, which rejects.
\<close>

definition onloadHandler ::
  "imageSource \<Rightarrow> addr \<Rightarrow> readback \<Rightarrow> host \<Rightarrow> outcome \<times> host" where
  "onloadHandler source img rb h =
     (let w = width (images h img);
          ht = height (images h img);
          h1 = emit (DrawImage img) (emit (ResizeCanvas w ht) h)
      in case rb of
           DrawThrows m \<Rightarrow> (Rejected (PixelAccessError m), h1)
         | ReadThrows m \<Rightarrow> (Rejected (PixelAccessError m), emit (GetImageData w ht) h1)
         | Pixels data \<Rightarrow>
             (Resolved (averageColor data), cleanUp source img (emit (GetImageData w ht) h1)))"

text \<open>Lines 158 to 160, \<^verbatim>\<open>img.onerror\<close>.\<close>

definition onerrorHandler :: "host \<Rightarrow> outcome \<times> host" where
  "onerrorHandler h = (Rejected ImageLoadError, h)"

text \<open>
  The whole operation: the outcome of the promise and the host afterwards. An exception
  thrown by the \<^verbatim>\<open>async\<close> function before the promise is built rejects the promise it
  returns.
\<close>

definition computeAverageColor ::
  "env \<Rightarrow> decode \<Rightarrow> imageSource \<Rightarrow> host \<Rightarrow> outcome \<times> host" where
  "computeAverageColor e d source h0 =
     (if \<not> hasWindow e \<or> \<not> hasDocument e then (Rejected EnvironmentError, h0)
      else
        let h1 = emit GetContext (emit HideCanvas (emit CreateCanvas h0))
        in if \<not> hasContext2d e then (Rejected ContextError, h1)
           else
             let (img, h2) = newImage h1
             in case setSource e source img h2 of
                  Inl err \<Rightarrow> (Rejected err, h2)
                | Inr h3 \<Rightarrow>
                    let h4 = update img
                               (\<lambda>i. i\<lparr>onload := Some ProcessImage, onerror := Some RejectLoad\<rparr>) h3
                    in case d of
                         NeverSignals \<Rightarrow> (Pending, h4)
                       | LoadFailed \<Rightarrow> onerrorHandler h4
                       | Loaded w ht rb \<Rightarrow>
                           onloadHandler source img rb
                             (update img (\<lambda>i. i\<lparr>width := w, height := ht\<rparr>) h4))"

section \<open>Notions of the specification\<close>

subsection \<open>Valid colours\<close>

text \<open>
  A valid triple has three components in \<open>[0, 255]\<close>; every triple of integers in that
  range is one.
\<close>

definition validRgb :: "real list \<Rightarrow> bool" where
  "validRgb c = (length c = 3 \<and> list_all (\<lambda>v. 0 \<le> v \<and> v \<le> 255) c)"

text \<open>
  What the theorems on contrast ask of the host's \<^verbatim>\<open>Math.pow\<close>: a base in \<open>(0, 1]\<close>
  raised to the power \<^verbatim>\<open>GAMMA\<close> lies in \<open>[0, 1]\<close>, and 1 raised to it is 1. The correctly
  rounded power function is one such function.
\<close>

definition unitPow :: "(real \<Rightarrow> real \<Rightarrow> real) \<Rightarrow> bool" where
  "unitPow mathPow =
     ((\<forall>x. 0 < x \<and> x \<le> 1 \<longrightarrow> 0 \<le> mathPow x GAMMA \<and> mathPow x GAMMA \<le> 1)
      \<and> mathPow 1 GAMMA = 1)"

definition roundedPowr :: "real \<Rightarrow> real \<Rightarrow> real" where
  "roundedPowr x y = fl (x powr y)"

text \<open>Names for the doubles that the literals of \<^verbatim>\<open>luminance\<close> and \<^verbatim>\<open>contrast\<close> denote.\<close>

definition lit03928 :: real where
  "lit03928 = fl 0.03928"

definition lit1292 :: real where
  "lit1292 = fl 12.92"

definition lit055 :: real where
  "lit055 = fl 0.055"

definition lit1055 :: real where
  "lit1055 = fl 1.055"

definition lit05 :: real where
  "lit05 = fl 0.05"

fun isChannel :: "number \<Rightarrow> bool" where
  "isChannel (Num n) = (0 \<le> n \<and> n \<le> 255)"
| "isChannel _ = False"

subsection \<open>The pattern \<^verbatim>\<open>[#]?[0-9a-fA-F]{6}\<close>\<close>

definition hexChars :: "char set" where
  "hexChars = set ''0123456789'' \<union> set ''abcdef'' \<union> set ''ABCDEF''"

fun sixHexChars :: "string \<Rightarrow> bool" where
  "sixHexChars [a, b, c, d, e, f] = ({a, b, c, d, e, f} \<subseteq> hexChars)"
| "sixHexChars _ = False"

fun matchesPattern :: "string \<Rightarrow> bool" where
  "matchesPattern [] = False"
| "matchesPattern (c # cs) = (sixHexChars (c # cs) \<or> (c = CHR ''#'' \<and> sixHexChars cs))"

text \<open>The digits of a string without its leading \<^verbatim>\<open>#\<close>, and lower case.\<close>

fun sixDigits :: "string \<Rightarrow> string" where
  "sixDigits [] = []"
| "sixDigits (c # cs) = (if c = CHR ''#'' then cs else c # cs)"

definition toLowerCase :: "char \<Rightarrow> char" where
  "toLowerCase c =
     (case map_of (zip ''ABCDEFGHIJKLMNOPQRSTUVWXYZ'' ''abcdefghijklmnopqrstuvwxyz'') c of
        Some l \<Rightarrow> l
      | None \<Rightarrow> c)"

subsection \<open>Images as lists of pixels\<close>

datatype pixel = RGBA (red: "8 word") (green: "8 word") (blue: "8 word") (alpha: "8 word")

text \<open>The buffer that \<^verbatim>\<open>getImageData\<close> returns for an image with these pixels.\<close>

definition bytes :: "pixel list \<Rightarrow> 8 word list" where
  "bytes px = concat (map (\<lambda>p. [red p, green p, blue p, alpha p]) px)"

definition channelSum :: "(pixel \<Rightarrow> 8 word) \<Rightarrow> pixel list \<Rightarrow> int" where
  "channelSum ch px = sum_list (map (\<lambda>p. uint (ch p)) px)"

definition isBlack :: "pixel \<Rightarrow> bool" where
  "isBlack p = (red p = 0 \<and> green p = 0 \<and> blue p = 0)"

definition isWhite :: "pixel \<Rightarrow> bool" where
  "isWhite p = (red p = 255 \<and> green p = 255 \<and> blue p = 255)"

subsection \<open>Hosts and sources\<close>

definition usable :: "env \<Rightarrow> bool" where
  "usable e = (hasWindow e \<and> hasDocument e \<and> hasContext2d e)"

definition supported :: "imageSource \<Rightarrow> bool" where
  "supported source = (source \<noteq> Unsupported)"


definition revocations :: "host \<Rightarrow> nat" where
  "revocations h =
     length (filter (\<lambda>e. case e of RevokeObjectURL u \<Rightarrow> True | _ \<Rightarrow> False) (trace h))"

definition browser :: env where
  "browser =
     \<lparr>hasWindow = True, hasDocument = True, hasContext2d = True, objectURL = (\<lambda>f. ''blob:0'')\<rparr>"

definition node :: env where
  "node =
     \<lparr>hasWindow = False, hasDocument = False, hasContext2d = False, objectURL = (\<lambda>f. [])\<rparr>"

definition emptyPage :: host where
  "emptyPage = \<lparr>images = (\<lambda>a. blankImage), nextAddr = 0, trace = []\<rparr>"

definition photo :: imageElement where
  "photo =
     \<lparr>src = ''photo.png'', crossOrigin = Some ''use-credentials'', width = 4, height = 3,
      onload = Some (PageScript 1), onerror = None\<rparr>"

definition page :: host where
  "page = \<lparr>images = (\<lambda>a. if a = 0 then photo else blankImage), nextAddr = 1, trace = []\<rparr>"

section \<open>Codec: lemmas\<close>

lemma below_16_cases:
  assumes "d < (16::nat)"
  shows "d \<in> {0, 1, 2, 3, 4, 5, 6, 7, 8, 9, 10, 11, 12, 13, 14, 15}"
  using assms by (simp; arith)

lemma isHexDigit_hexDigit: "d < 16 \<Longrightarrow> isHexDigit (hexDigit d)"
  using below_16_cases [of d] by (auto simp: isHexDigit_def hexDigit_def)

lemma digitValue_hexDigit: "d < 16 \<Longrightarrow> digitValue (hexDigit d) = d"
  using below_16_cases [of d] by (auto simp: digitValue_def hexDigit_def)

lemma digitValue_less: "isHexDigit c \<Longrightarrow> digitValue c < 16"
  unfolding isHexDigit_def by (auto simp: digitValue_def)

lemma hexDigit_digitValue:
  assumes "isHexDigit c"
  shows "hexDigit (digitValue c) = toLowerCase c"
proof -
  from assms have "c \<in> set ''0123456789abcdefABCDEF''"
    by (simp only: isHexDigit_def)
  then have cases: "c = CHR ''0'' \<or> c = CHR ''1'' \<or> c = CHR ''2'' \<or> c = CHR ''3'' \<or> c = CHR ''4''
      \<or> c = CHR ''5'' \<or> c = CHR ''6'' \<or> c = CHR ''7'' \<or> c = CHR ''8'' \<or> c = CHR ''9''
      \<or> c = CHR ''a'' \<or> c = CHR ''b'' \<or> c = CHR ''c'' \<or> c = CHR ''d'' \<or> c = CHR ''e''
      \<or> c = CHR ''f'' \<or> c = CHR ''A'' \<or> c = CHR ''B'' \<or> c = CHR ''C'' \<or> c = CHR ''D''
      \<or> c = CHR ''E'' \<or> c = CHR ''F''"
    by simp
  then show ?thesis
    by (elim disjE) (simp_all add: digitValue_def hexDigit_def toLowerCase_def)
qed

lemma componentToHex_byte:
  assumes "n < 256"
  shows "componentToHex (Num (int n)) = [hexDigit (n div 16), hexDigit (n mod 16)]"
proof (cases "n < 16")
  case True
  then have "digits16 n = [hexDigit n]"
    by (simp add: digits16.simps [of n])
  with True show ?thesis
    by (simp add: componentToHex_def hexDigit_def)
next
  case False
  from assms have "n div 16 < 16" by simp
  then have "digits16 (n div 16) = [hexDigit (n div 16)]"
    by (simp add: digits16.simps [of "n div 16"])
  with False have "digits16 n = [hexDigit (n div 16), hexDigit (n mod 16)]"
    by (simp add: digits16.simps [of n])
  then show ?thesis
    by (simp add: componentToHex_def)
qed

lemma parseInt16_pair:
  assumes "isHexDigit a" and "isHexDigit b"
  shows "parseInt16 [a, b] = Num (int (16 * digitValue a + digitValue b))"
  using assms by (simp add: parseInt16_def)

lemma parseInt16_byte:
  assumes "n < 256"
  shows "parseInt16 [hexDigit (n div 16), hexDigit (n mod 16)] = Num (int n)"
proof -
  from assms have hi: "n div 16 < 16" by simp
  have lo: "n mod 16 < 16" by simp
  have "parseInt16 [hexDigit (n div 16), hexDigit (n mod 16)]
          = Num (int (16 * digitValue (hexDigit (n div 16)) + digitValue (hexDigit (n mod 16))))"
    by (rule parseInt16_pair) (simp_all add: isHexDigit_hexDigit hi)
  also have "\<dots> = Num (int (16 * (n div 16) + n mod 16))"
    by (simp only: digitValue_hexDigit [OF hi] digitValue_hexDigit [OF lo])
  finally show ?thesis by simp
qed

lemma componentToHex_pair:
  assumes "isHexDigit a" and "isHexDigit b"
  shows "componentToHex (Num (int (16 * digitValue a + digitValue b))) = [toLowerCase a, toLowerCase b]"
proof -
  let ?n = "16 * digitValue a + digitValue b"
  from digitValue_less [OF assms(1)] digitValue_less [OF assms(2)]
  have n: "?n < 256" and d: "?n div 16 = digitValue a" and m: "?n mod 16 = digitValue b"
    by simp_all
  show ?thesis
    by (simp only: componentToHex_byte [OF n] d m hexDigit_digitValue [OF assms(1)]
        hexDigit_digitValue [OF assms(2)])
qed

lemma isChannel_pair:
  assumes "isHexDigit a" and "isHexDigit b"
  shows "isChannel (Num (int (16 * digitValue a + digitValue b)))"
  using digitValue_less [OF assms(1)] digitValue_less [OF assms(2)] by simp

lemma execHex_six:
  assumes "list_all isHexDigit [a, b, c, d, e, f]"
  shows "execHex (CHR ''#'' # [a, b, c, d, e, f]) = Some ([a, b], [c, d], [e, f])"
  using assms by (simp add: execHex_def)

lemma isHexDigit_iff: "isHexDigit c \<longleftrightarrow> c \<in> hexChars"
  by (auto simp: isHexDigit_def hexChars_def)

lemma length_six:
  assumes "length xs = 6"
  obtains a b c d e f where "xs = [a, b, c, d, e, f]"
  using assms by (auto simp: length_Suc_conv numeral_eq_Suc)

lemma sixHexChars_iff: "sixHexChars xs \<longleftrightarrow> length xs = 6 \<and> list_all isHexDigit xs"
proof
  assume "sixHexChars xs"
  then show "length xs = 6 \<and> list_all isHexDigit xs"
    by (induction xs rule: sixHexChars.induct) (simp_all add: isHexDigit_iff)
next
  assume h: "length xs = 6 \<and> list_all isHexDigit xs"
  then obtain a b c d e f where "xs = [a, b, c, d, e, f]"
    by (auto elim: length_six)
  with h show "sixHexChars xs"
    by (simp add: isHexDigit_iff)
qed

lemma hash_not_hex: "\<not> isHexDigit CHR ''#''"
  by (simp add: isHexDigit_def)

lemma execHex_None_iff: "execHex hex = None \<longleftrightarrow> \<not> matchesPattern hex"
proof (cases hex)
  case Nil
  then show ?thesis by (simp add: execHex_def)
next
  case (Cons c cs)
  show ?thesis
  proof (cases "c = CHR ''#''")
    case True
    with Cons show ?thesis
      by (auto simp: execHex_def sixHexChars_iff hash_not_hex)
  next
    case False
    with Cons show ?thesis
      by (simp add: execHex_def sixHexChars_iff Let_def)
  qed
qed

lemma execHex_Some:
  assumes "matchesPattern hex"
  shows "\<exists>a b c d e f. sixDigits hex = [a, b, c, d, e, f] \<and> list_all isHexDigit [a, b, c, d, e, f]
            \<and> execHex hex = Some ([a, b], [c, d], [e, f])"
proof -
  have body: "length (sixDigits hex) = 6 \<and> list_all isHexDigit (sixDigits hex)"
    using assms by (cases hex) (auto simp: sixHexChars_iff hash_not_hex)
  then obtain a b c d e f where ds: "sixDigits hex = [a, b, c, d, e, f]"
    by (auto elim: length_six)
  have "execHex hex = Some (take 2 (sixDigits hex), take 2 (drop 2 (sixDigits hex)), take 2 (drop 4 (sixDigits hex)))"
    using body by (cases hex) (auto simp: execHex_def)
  with ds body show ?thesis by simp
qed

lemma hexToRgb_groups:
  assumes "matchesPattern hex"
  shows "\<exists>a b c d e f. sixDigits hex = [a, b, c, d, e, f]
           \<and> list_all isHexDigit [a, b, c, d, e, f]
           \<and> hexToRgb hex = Inr [Num (int (16 * digitValue a + digitValue b)),
                                   Num (int (16 * digitValue c + digitValue d)),
                                   Num (int (16 * digitValue e + digitValue f))]"
proof -
  from execHex_Some [OF assms] obtain a b c d e f where
    ds: "sixDigits hex = [a, b, c, d, e, f]" and
    hx: "list_all isHexDigit [a, b, c, d, e, f]" and
    ex: "execHex hex = Some ([a, b], [c, d], [e, f])"
    by blast
  from hx have "hexToRgb hex = Inr [Num (int (16 * digitValue a + digitValue b)),
                                   Num (int (16 * digitValue c + digitValue d)),
                                   Num (int (16 * digitValue e + digitValue f))]"
    by (simp add: hexToRgb_def ex parseInt16_pair)
  with ds hx show ?thesis by blast
qed

section \<open>Codec: theorems\<close>

text \<open>
  C1. For all integers \<open>r\<close>, \<open>g\<close>, \<open>b\<close> in \<open>[0, 255]\<close>, decoding the string that
  \<^verbatim>\<open>rgbToHexString\<close> builds gives back exactly the triple \<open>[r, g, b]\<close>, without an error.
\<close>

theorem hexToRgb_rgbToHexString:
  assumes "0 \<le> r" "r \<le> 255" "0 \<le> g" "g \<le> 255" "0 \<le> b" "b \<le> 255"
  shows "hexToRgb (rgbToHexString (Num r) (Num g) (Num b)) = Inr [Num r, Num g, Num b]"
proof -
  define x where "x = nat r"
  define y where "y = nat g"
  define z where "z = nat b"
  from assms have bounds: "x < 256" "y < 256" "z < 256"
    and conv: "r = int x" "g = int y" "b = int z"
    by (simp_all add: x_def y_def z_def)
  have digits: "list_all isHexDigit
      [hexDigit (x div 16), hexDigit (x mod 16), hexDigit (y div 16), hexDigit (y mod 16),
       hexDigit (z div 16), hexDigit (z mod 16)]"
    using bounds by (simp add: isHexDigit_hexDigit)
  have "rgbToHexString (Num r) (Num g) (Num b)
          = CHR ''#'' # [hexDigit (x div 16), hexDigit (x mod 16), hexDigit (y div 16),
                         hexDigit (y mod 16), hexDigit (z div 16), hexDigit (z mod 16)]"
    using bounds by (simp add: rgbToHexString_def rgbToHex_def conv componentToHex_byte)
  then show ?thesis
    using bounds
    by (simp only: hexToRgb_def execHex_six [OF digits] option.case prod.case
        parseInt16_byte conv)
qed

theorem hexToRgb_rgbToHexString_witness:
  "hexToRgb (rgbToHexString (Num 255) (Num 87) (Num 51)) = Inr [Num 255, Num 87, Num 51]"
  using hexToRgb_rgbToHexString [of 255 87 51] by simp

text \<open>
  C5. \<^verbatim>\<open>hexToRgb(hex)\<close> throws the invalid-format error exactly when \<open>hex\<close> does not
  match \<^verbatim>\<open>[#]?[0-9a-fA-F]{6}\<close>, and it throws no other error. When it succeeds, the
  result is the three two-digit groups read in base 16, each component in \<open>[0, 255]\<close>.
  It fails on \<^verbatim>\<open>"xyz123"\<close>, \<^verbatim>\<open>"#fff"\<close> and the empty string, and reads both
  \<^verbatim>\<open>"ff5733"\<close> and \<^verbatim>\<open>"#FF5733"\<close> as \<open>[255, 87, 51]\<close>.
\<close>

theorem hexToRgb_InvalidFormat:
  "(hexToRgb hex = Inl (InvalidFormat hex) \<longleftrightarrow> \<not> matchesPattern hex)
   \<and> (\<forall>e. hexToRgb hex = Inl e \<longrightarrow> e = InvalidFormat hex)
   \<and> (\<forall>v. hexToRgb hex = Inr v \<longrightarrow>
          (\<exists>a b c d e f. sixDigits hex = [a, b, c, d, e, f]
             \<and> v = [Num (int (16 * digitValue a + digitValue b)),
                      Num (int (16 * digitValue c + digitValue d)),
                      Num (int (16 * digitValue e + digitValue f))])
          \<and> list_all isChannel v)
   \<and> hexToRgb ''xyz123'' = Inl (InvalidFormat ''xyz123'')
   \<and> hexToRgb ''#fff'' = Inl (InvalidFormat ''#fff'')
   \<and> hexToRgb [] = Inl (InvalidFormat [])
   \<and> hexToRgb ''ff5733'' = Inr [Num 255, Num 87, Num 51]
   \<and> hexToRgb ''#FF5733'' = Inr [Num 255, Num 87, Num 51]"
proof (intro conjI allI impI)
  show "hexToRgb hex = Inl (InvalidFormat hex) \<longleftrightarrow> \<not> matchesPattern hex"
    using execHex_None_iff [of hex] by (auto simp: hexToRgb_def split: option.splits)
next
  fix e assume "hexToRgb hex = Inl e"
  then show "e = InvalidFormat hex"
    by (auto simp: hexToRgb_def split: option.splits)
next
  fix v assume ok: "hexToRgb hex = Inr v"
  then have "matchesPattern hex"
    using execHex_None_iff [of hex] by (auto simp: hexToRgb_def split: option.splits)
  from hexToRgb_groups [OF this] obtain a b c d e f where
    ds: "sixDigits hex = [a, b, c, d, e, f]" and
    v: "hexToRgb hex = Inr [Num (int (16 * digitValue a + digitValue b)),
                            Num (int (16 * digitValue c + digitValue d)),
                            Num (int (16 * digitValue e + digitValue f))]"
    by blast
  from v ok have "v = [Num (int (16 * digitValue a + digitValue b)),
                       Num (int (16 * digitValue c + digitValue d)),
                       Num (int (16 * digitValue e + digitValue f))]"
    by (simp only: sum.inject)
  with ds show "\<exists>a b c d e f. sixDigits hex = [a, b, c, d, e, f]
             \<and> v = [Num (int (16 * digitValue a + digitValue b)),
                      Num (int (16 * digitValue c + digitValue d)),
                      Num (int (16 * digitValue e + digitValue f))]"
    by blast
next
  fix v assume ok: "hexToRgb hex = Inr v"
  then have "matchesPattern hex"
    using execHex_None_iff [of hex] by (auto simp: hexToRgb_def split: option.splits)
  from hexToRgb_groups [OF this] obtain a b c d e f where
    hx: "list_all isHexDigit [a, b, c, d, e, f]" and
    v: "hexToRgb hex = Inr [Num (int (16 * digitValue a + digitValue b)),
                                   Num (int (16 * digitValue c + digitValue d)),
                                   Num (int (16 * digitValue e + digitValue f))]"
    by blast
  from hx have ha: "isHexDigit a" and hb: "isHexDigit b" and hc: "isHexDigit c"
    and hd: "isHexDigit d" and he: "isHexDigit e" and hf: "isHexDigit f"
    by simp_all
  note isChannel_pair [OF ha hb] isChannel_pair [OF hc hd] isChannel_pair [OF he hf]
  moreover from v ok have "v = [Num (int (16 * digitValue a + digitValue b)),
                       Num (int (16 * digitValue c + digitValue d)),
                       Num (int (16 * digitValue e + digitValue f))]"
    by (simp only: sum.inject)
  ultimately show "list_all isChannel v"
    by simp
next
  show "hexToRgb ''xyz123'' = Inl (InvalidFormat ''xyz123'')"
    by (simp add: hexToRgb_def execHex_def isHexDigit_def)
next
  show "hexToRgb ''#fff'' = Inl (InvalidFormat ''#fff'')"
    by (simp add: hexToRgb_def execHex_def)
next
  show "hexToRgb [] = Inl (InvalidFormat [])"
    by (simp add: hexToRgb_def execHex_def)
next
  show "hexToRgb ''ff5733'' = Inr [Num 255, Num 87, Num 51]"
    by (simp add: hexToRgb_def execHex_def isHexDigit_def parseInt16_def digitValue_def)
next
  show "hexToRgb ''#FF5733'' = Inr [Num 255, Num 87, Num 51]"
    by (simp add: hexToRgb_def execHex_def isHexDigit_def parseInt16_def digitValue_def)
qed

theorem hexToRgb_InvalidFormat_witness:
  "\<not> matchesPattern ''#ff'' \<and> hexToRgb ''#ff'' = Inl (InvalidFormat ''#ff'')
   \<and> hexToRgb ''00ff7f'' = Inr [Num 0, Num 255, Num 127]
   \<and> list_all isChannel [Num 0, Num 255, Num 127]"
proof -
  have m: "\<not> matchesPattern ''#ff''"
    by simp
  have "hexToRgb ''#ff'' = Inl (InvalidFormat ''#ff'') \<longleftrightarrow> \<not> matchesPattern ''#ff''"
    using hexToRgb_InvalidFormat [of "''#ff''"] by (rule conjunct1)
  with m have bad: "hexToRgb ''#ff'' = Inl (InvalidFormat ''#ff'')"
    by blast
  have ok: "hexToRgb ''00ff7f'' = Inr [Num 0, Num 255, Num 127]"
    by (simp add: hexToRgb_def execHex_def isHexDigit_def parseInt16_def digitValue_def)
  have "\<forall>v. hexToRgb ''00ff7f'' = Inr v \<longrightarrow>
          (\<exists>a b c d e f. sixDigits ''00ff7f'' = [a, b, c, d, e, f]
             \<and> v = [Num (int (16 * digitValue a + digitValue b)),
                      Num (int (16 * digitValue c + digitValue d)),
                      Num (int (16 * digitValue e + digitValue f))])
          \<and> list_all isChannel v"
    using hexToRgb_InvalidFormat [of "''00ff7f''"] by blast
  with ok have "list_all isChannel [Num 0, Num 255, Num 127]"
    by blast
  with m bad ok show ?thesis
    by blast
qed

text \<open>
  C9. For every string \<open>h\<close> that matches \<^verbatim>\<open>[#]?[0-9a-fA-F]{6}\<close>, encoding the triple
  \<^verbatim>\<open>hexToRgb(h)\<close> with \<^verbatim>\<open>rgbToHexString\<close> gives \<^verbatim>\<open>#\<close> followed by the six digits of
  \<open>h\<close> in lower case.
\<close>

theorem rgbToHexString_hexToRgb:
  assumes "matchesPattern h"
  shows "\<exists>r g b. hexToRgb h = Inr [r, g, b]
           \<and> rgbToHexString r g b = CHR ''#'' # map toLowerCase (sixDigits h)"
proof -
  from hexToRgb_groups [OF assms] obtain a b c d e f where
    ds: "sixDigits h = [a, b, c, d, e, f]" and
    hx: "list_all isHexDigit [a, b, c, d, e, f]" and
    v: "hexToRgb h = Inr [Num (int (16 * digitValue a + digitValue b)),
                          Num (int (16 * digitValue c + digitValue d)),
                          Num (int (16 * digitValue e + digitValue f))]"
    by blast
  from hx have ha: "isHexDigit a" and hb: "isHexDigit b" and hc: "isHexDigit c"
    and hd: "isHexDigit d" and he: "isHexDigit e" and hf: "isHexDigit f"
    by simp_all
  note componentToHex_pair [OF ha hb] componentToHex_pair [OF hc hd] componentToHex_pair [OF he hf]
  then have "rgbToHexString (Num (int (16 * digitValue a + digitValue b)))
                  (Num (int (16 * digitValue c + digitValue d)))
                  (Num (int (16 * digitValue e + digitValue f)))
                = CHR ''#'' # map toLowerCase (sixDigits h)"
    by (simp only: rgbToHexString_def rgbToHex_def ds list.map append.simps)
  with v show ?thesis by blast
qed

theorem rgbToHexString_hexToRgb_witness:
  "matchesPattern ''#FF5733''
   \<and> (\<exists>r g b. hexToRgb ''#FF5733'' = Inr [r, g, b] \<and> rgbToHexString r g b = ''#ff5733'')"
proof -
  have m: "matchesPattern ''#FF5733''"
    by (simp add: hexChars_def)
  from rgbToHexString_hexToRgb [OF m] m show ?thesis
    by (simp add: toLowerCase_def)
qed

section \<open>Arithmetic on doubles: lemmas\<close>

lemma rne_of_int: "rne (of_int n) = n"
  by (simp add: rne_def)

lemma rne_floor: "\<lfloor>y\<rfloor> \<le> rne y \<and> rne y \<le> \<lfloor>y\<rfloor> + 1"
  by (simp add: rne_def Let_def)

lemma rne_mono:
  assumes "a \<le> b"
  shows "rne a \<le> rne b"
proof (cases "\<lfloor>a\<rfloor> = \<lfloor>b\<rfloor>")
  case True
  with assms have "a - of_int \<lfloor>a\<rfloor> \<le> b - of_int \<lfloor>b\<rfloor>"
    by simp
  with True show ?thesis
    by (auto simp: rne_def Let_def)
next
  case False
  from assms have "\<lfloor>a\<rfloor> \<le> \<lfloor>b\<rfloor>"
    by (rule floor_mono)
  with False have "\<lfloor>a\<rfloor> + 1 \<le> \<lfloor>b\<rfloor>"
    by simp
  with rne_floor [of a] rne_floor [of b] show ?thesis
    by linarith
qed

lemma binade:
  assumes "0 < x"
  shows "2 powr of_int (expo x) \<le> x \<and> x < 2 powr (of_int (expo x) + 1)"
proof -
  have "of_int (expo x) \<le> log 2 x" and "log 2 x < of_int (expo x) + 1"
    using assms by (simp_all add: expo_def)
  with assms show ?thesis
    by (simp add: le_log_iff log_less_iff)
qed

lemma expo_unique:
  assumes "0 < x" and "2 powr of_int e \<le> x" and "x < 2 powr (of_int e + 1)"
  shows "expo x = e"
proof -
  from assms have "of_int e \<le> log 2 x" and "log 2 x < of_int e + 1"
    by (simp_all add: le_log_iff log_less_iff)
  then have "\<lfloor>log 2 x\<rfloor> = e"
    by (rule floor_unique)
  with assms(1) show ?thesis
    by (simp add: expo_def)
qed

lemma expo_mono:
  assumes "0 < x" and "x \<le> y"
  shows "expo x \<le> expo y"
proof -
  from assms have "log 2 x \<le> log 2 y"
    by simp
  then have "\<lfloor>log 2 x\<rfloor> \<le> \<lfloor>log 2 y\<rfloor>"
    by (rule floor_mono)
  with assms show ?thesis
    by (simp add: expo_def)
qed

lemma fl_zero: "fl 0 = 0"
  by (simp add: fl_def)

lemma ulp_pos: "0 < ulp x"
  by (simp add: ulp_def)

lemma scaled:
  assumes "0 < x"
  shows "2 ^ 52 \<le> x / ulp x \<and> x / ulp x < 2 ^ 53"
proof -
  let ?e = "of_int (expo x) :: real"
  have u: "ulp x = 2 powr ?e / 2 ^ 52"
    by (simp add: ulp_def powr_diff)
  have two: "2 powr (?e + 1) = 2 * 2 powr ?e"
    by (simp add: powr_add)
  have p: "0 < 2 powr ?e"
    by simp
  from binade [OF assms] have "2 powr ?e \<le> x" "x < 2 * 2 powr ?e"
    by (simp_all add: two)
  with p show ?thesis
    by (simp add: u field_simps)
qed

lemma fl_range:
  assumes "0 < x"
  shows "2 powr of_int (expo x) \<le> fl x \<and> fl x \<le> 2 powr (of_int (expo x) + 1)"
proof -
  let ?e = "of_int (expo x) :: real"
  let ?m = "rne (x / ulp x)"
  from scaled [OF assms] have "(of_int (2 ^ 52) :: real) \<le> x / ulp x" "x / ulp x \<le> of_int (2 ^ 53)"
    by simp_all
  then have "rne (of_int (2 ^ 52)) \<le> ?m" "?m \<le> rne (of_int (2 ^ 53))"
    by (simp_all only: rne_mono)
  then have m: "2 ^ 52 \<le> ?m" "?m \<le> 2 ^ 53"
    by (simp_all only: rne_of_int)
  then have mr: "(2 ^ 52 :: real) \<le> of_int ?m" "(of_int ?m :: real) \<le> 2 ^ 53"
    by (simp_all add: of_int_le_iff [symmetric] del: of_int_le_iff)
  have u: "ulp x = 2 powr ?e / 2 ^ 52"
    by (simp add: ulp_def powr_diff)
  have two: "2 powr (?e + 1) = 2 * 2 powr ?e"
    by (simp add: powr_add)
  have p: "0 < 2 powr ?e"
    by simp
  define c :: real where "c = of_int ?m / 2 ^ 52"
  from mr have c: "1 \<le> c" "c \<le> 2"
    by (simp_all add: c_def)
  from assms have "fl x = c * 2 powr ?e"
    by (simp add: fl_def u c_def)
  with c p show ?thesis
    by (simp add: two)
qed

lemma fl_mono_pos:
  assumes "0 < x" and "x \<le> y"
  shows "fl x \<le> fl y"
proof (cases "expo x = expo y")
  case True
  then have u: "ulp x = ulp y"
    by (simp add: ulp_def)
  from assms ulp_pos [of y] have "x / ulp y \<le> y / ulp y"
    by (simp add: divide_right_mono)
  then have "rne (x / ulp y) \<le> rne (y / ulp y)"
    by (rule rne_mono)
  then have "(of_int (rne (x / ulp y)) :: real) \<le> of_int (rne (y / ulp y))"
    by simp
  with ulp_pos [of y] have "of_int (rne (x / ulp y)) * ulp y \<le> of_int (rne (y / ulp y)) * ulp y"
    by (simp add: mult_right_mono)
  with assms show ?thesis
    by (simp add: fl_def u)
next
  case False
  from assms have y: "0 < y"
    by simp
  from expo_mono [OF assms] False have "expo x + 1 \<le> expo y"
    by simp
  then have "(of_int (expo x) :: real) + 1 \<le> of_int (expo y)"
    by (simp add: of_int_le_iff [symmetric] del: of_int_le_iff)
  then have "(2::real) powr (of_int (expo x) + 1) \<le> 2 powr of_int (expo y)"
    by simp
  with fl_range [OF assms(1)] fl_range [OF y] show ?thesis
    by linarith
qed

lemma fl_pos:
  assumes "0 < x"
  shows "0 < fl x"
proof -
  have "0 < 2 powr real_of_int (expo x)"
    by simp
  with fl_range [OF assms] show ?thesis
    by linarith
qed

lemma fl_mono:
  assumes "0 \<le> x" and "x \<le> y"
  shows "fl x \<le> fl y"
proof (cases "x = 0")
  case True
  show ?thesis
  proof (cases "y = 0")
    case True
    with \<open>x = 0\<close> show ?thesis by simp
  next
    case False
    with assms True have "0 < y"
      by simp
    from fl_pos [OF this] True show ?thesis
      by (simp add: fl_zero)
  qed
next
  case False
  with assms have "0 < x"
    by simp
  then show ?thesis
    using assms(2) by (rule fl_mono_pos)
qed

lemma fl_eval:
  assumes "2 ^ 52 \<le> x * 2 ^ k" and "x * 2 ^ k < 2 ^ 53"
  shows "fl x = of_int (rne (x * 2 ^ k)) / 2 ^ k"
proof -
  have pk: "(0::real) < 2 ^ k"
    by simp
  from assms(1) have "0 < x * 2 ^ k"
    by (rule less_le_trans [rotated]) simp
  with pk have x: "0 < x"
    by (simp add: zero_less_mult_iff)
  define e :: int where "e = 52 - int k"
  have pw: "2 powr (of_int e) = (2 ^ 52 :: real) / 2 ^ k"
    by (simp add: e_def powr_diff powr_realpow)
  have "2 powr of_int e \<le> x"
    using assms(1) by (simp add: pw field_simps)
  moreover have "x < 2 powr (of_int e + 1)"
    using assms(2) by (simp add: powr_add pw field_simps)
  ultimately have "expo x = e"
    by (rule expo_unique [OF x])
  then have "ulp x = 1 / 2 ^ k"
    by (simp add: ulp_def powr_diff pw)
  with x show ?thesis
    by (simp add: fl_def)
qed

lemma fl_one: "fl 1 = 1"
  using fl_eval [of 1 52] by (simp add: rne_def)

lemma fl_unit:
  assumes "0 \<le> x" and "x \<le> 1"
  shows "0 \<le> fl x \<and> fl x \<le> 1"
  using fl_mono [of 0 x] fl_mono [of x 1] assms by (simp add: fl_zero fl_one)

lemma fl_ge_one:
  assumes "1 \<le> x"
  shows "1 \<le> fl x"
  using fl_mono [of 1 x] assms by (simp add: fl_one)

lemma fl_representable:
  assumes "0 < m" and "m < 2 ^ 53"
  shows "fl (of_int m / 2 ^ k) = of_int m / 2 ^ k"
proof -
  define x :: real where "x = of_int m / 2 ^ k"
  from assms(1) have x: "0 < x"
    by (simp add: x_def)
  define e where "e = expo x"
  from binade [OF x] have lo: "2 powr of_int e \<le> x"
    by (simp add: e_def)
  from assms(2) have "(of_int m :: real) < 2 ^ 53"
    by (simp add: of_int_less_iff [symmetric] del: of_int_less_iff)
  then have "x < 2 ^ 53 / 2 ^ k"
    by (simp add: x_def divide_strict_right_mono)
  also have "\<dots> = 2 powr (53 - of_int (int k))"
    by (simp add: powr_diff powr_realpow)
  finally have hi: "x < 2 powr (53 - of_int (int k))" .
  from lo hi have "(2::real) powr of_int e < 2 powr (53 - of_int (int k))"
    by (rule le_less_trans)
  then have "(of_int e :: real) < 53 - of_int (int k)"
    by simp
  then have "e < 53 - int k"
    by linarith
  then have j: "0 \<le> 52 - e - int k"
    by simp
  define j where "j = nat (52 - e - int k)"
  from j have ej: "of_int e = 52 - real k - real j"
    by (simp add: j_def)
  have "ulp x = 2 powr (- real k - real j)"
    by (simp add: ulp_def e_def [symmetric] ej)
  also have "\<dots> = 1 / (2 ^ k * 2 ^ j)"
    by (simp add: powr_diff powr_minus powr_realpow field_simps)
  finally have u: "ulp x = 1 / (2 ^ k * 2 ^ j)" .
  have "x / ulp x = of_int (m * 2 ^ j)"
    unfolding u by (simp add: x_def)
  then have "rne (x / ulp x) = m * 2 ^ j"
    by (simp only: rne_of_int)
  with x have "fl x = of_int (m * 2 ^ j) * ulp x"
    by (simp add: fl_def)
  also have "\<dots> = x"
    unfolding u by (simp add: x_def)
  finally show ?thesis
    by (simp add: x_def)
qed

lemma fl_of_int:
  assumes "0 \<le> m" and "m < 2 ^ 53"
  shows "fl (of_int m) = of_int m"
proof (cases "m = 0")
  case True
  then show ?thesis
    by (simp add: fl_zero)
next
  case False
  with assms have "0 < m"
    by simp
  from fl_representable [OF this assms(2), of 0] show ?thesis
    by simp
qed

text \<open>
  The averaging pass divides a sum of bytes by the number of pixels and floors the
  quotient. For up to \<open>2^44\<close> pixels the rounded quotient has the floor of the exact one,
  so that pass is modelled with exact division.
\<close>

lemma floor_fl_quotient:
  assumes "0 \<le> s" and "0 < n" and "n \<le> 2 ^ 44" and "s \<le> 255 * n"
  shows "\<lfloor>fl (of_int s / of_int n)\<rfloor> = s div n"
proof -
  define k where "k = s div n"
  define q :: real where "q = of_int s / of_int n"
  from assms(1,2) have k0: "0 \<le> k"
    by (simp add: k_def pos_imp_zdiv_nonneg_iff)
  from assms(2,4) have "s div n \<le> (255 * n) div n"
    by (intro zdiv_mono1) simp_all
  with assms(2) have "k \<le> 255"
    by (simp add: k_def)
  note k = k0 this
  have "\<lfloor>q\<rfloor> = k"
    by (simp add: q_def k_def floor_divide_of_int_eq)
  then have kq: "of_int k \<le> q" and "q < of_int k + 1"
    by linarith+
  have qn: "0 \<le> q"
    using assms by (simp add: q_def)
  from k have "fl (of_int k) = of_int k"
    by (intro fl_of_int) simp_all
  moreover from k kq have "fl (of_int k) \<le> fl q"
    by (intro fl_mono) simp_all
  ultimately have lower: "of_int k \<le> fl q"
    by simp
  define m where "m = (k + 1) * 2 ^ 44 - 1"
  from k have m: "0 < m" "m < 2 ^ 53"
    by (simp_all add: m_def)
  have "s mod n \<le> n - 1"
    using assms(2) by simp
  moreover have "s = k * n + s mod n"
    by (simp add: k_def)
  ultimately have "s \<le> k * n + n - 1"
    by linarith
  then have "(of_int s :: real) \<le> of_int (k * n + n - 1)"
    by (simp only: of_int_le_iff)
  then have "q \<le> of_int k + 1 - 1 / of_int n"
    using assms(2) by (simp add: q_def field_simps)
  moreover have "1 / (2 ^ 44 :: real) \<le> 1 / of_int n"
    using assms(2,3) by (intro divide_left_mono) (simp_all add: of_int_le_iff [symmetric] del: of_int_le_iff)
  ultimately have "q \<le> of_int k + 1 - 1 / 2 ^ 44"
    by linarith
  also have "\<dots> = of_int m / 2 ^ 44"
    by (simp add: m_def field_simps)
  finally have "fl q \<le> fl (of_int m / 2 ^ 44)"
    using qn by (intro fl_mono)
  also have "\<dots> = of_int m / 2 ^ 44"
    using m by (rule fl_representable)
  also have "\<dots> < of_int k + 1"
    by (simp add: m_def field_simps)
  finally have upper: "fl q < of_int k + 1" .
  from lower upper have "\<lfloor>fl q\<rfloor> = k"
    by (intro floor_unique) simp_all
  then show ?thesis
    by (simp add: q_def k_def)
qed

section \<open>Contrast\<close>

lemma linearize_lit:
  "linearize mathPow v0 =
     (let v = fl (v0 / 255)
      in if v \<le> lit03928 then fl (v / lit1292)
         else mathPow (fl (fl (v + lit055) / lit1055)) GAMMA)"
  unfolding linearize_def lit03928_def lit1292_def lit055_def lit1055_def ..

lemma contrast_lit:
  "contrast mathPow rgb1 rgb2 =
     (if length rgb1 < 3 \<or> length rgb2 < 3 then None
      else
        let lum1 = luminance mathPow (rgb1 ! 0) (rgb1 ! 1) (rgb1 ! 2);
            lum2 = luminance mathPow (rgb2 ! 0) (rgb2 ! 1) (rgb2 ! 2);
            brightest = max lum1 lum2;
            darkest = min lum1 lum2
        in if fl (darkest + lit05) = 0 then None
           else Some (fl (fl (brightest + lit05) / fl (darkest + lit05))))"
  unfolding contrast_def lit05_def ..

lemma RED_val: "RED = 7659722246231740 / 2 ^ 55"
  unfolding RED_def by (subst fl_eval [of _ 55]) (simp_all add: rne_def)

lemma GREEN_val: "GREEN = 6441948906990757 / 2 ^ 53"
  unfolding GREEN_def by (subst fl_eval [of _ 53]) (simp_all add: rne_def)

lemma BLUE_val: "BLUE = 5202558289538397 / 2 ^ 56"
  unfolding BLUE_def by (subst fl_eval [of _ 56]) (simp_all add: rne_def)

lemma lit03928_val: "lit03928 = 5660844587619619 / 2 ^ 57"
  unfolding lit03928_def by (subst fl_eval [of _ 57]) (simp_all add: rne_def)

lemma lit1292_val: "lit1292 = 7273313398203351 / 2 ^ 49"
  unfolding lit1292_def by (subst fl_eval [of _ 49]) (simp_all add: rne_def)

lemma lit055_val: "lit055 = 7926335344172073 / 2 ^ 57"
  unfolding lit055_def by (subst fl_eval [of _ 57]) (simp_all add: rne_def)

lemma lit1055_val: "lit1055 = 4751297606875873 / 2 ^ 52"
  unfolding lit1055_def by (subst fl_eval [of _ 52]) (simp_all add: rne_def)

lemma lit05_val: "lit05 = 7205759403792794 / 2 ^ 57"
  unfolding lit05_def by (subst fl_eval [of _ 57]) (simp_all add: rne_def)

lemma fl_RED: "fl RED = RED"
  unfolding RED_val by (subst fl_eval [of _ 55]) (simp_all add: rne_def)

lemma fl_GREEN: "fl GREEN = GREEN"
  unfolding GREEN_val by (subst fl_eval [of _ 53]) (simp_all add: rne_def)

lemma fl_BLUE: "fl BLUE = BLUE"
  unfolding BLUE_val by (subst fl_eval [of _ 56]) (simp_all add: rne_def)

lemma fl_lit05: "fl lit05 = lit05"
  unfolding lit05_val by (subst fl_eval [of _ 57]) (simp_all add: rne_def)

lemma sum_RED_GREEN: "fl (RED + GREEN) = 8356879468548692 / 2 ^ 53"
  unfolding RED_val GREEN_val by (subst fl_eval [of _ 53]) (simp_all add: rne_def)

lemma sum_weights: "fl (fl (RED + GREEN) + BLUE) = 1"
  unfolding sum_RED_GREEN BLUE_val by (subst fl_eval [of _ 53]) (simp_all add: rne_def)

lemma one_plus_lit05: "fl (1 + lit05) = 4728779608739021 / 2 ^ 52"
  unfolding lit05_val by (subst fl_eval [of _ 52]) (simp_all add: rne_def)

lemma ratio_21: "fl (fl (1 + lit05) / lit05) = 21"
  unfolding one_plus_lit05 unfolding lit05_val
  by (subst fl_eval [of _ 48]) (simp_all add: rne_def)

lemma one_plus_lit055: "fl (1 + lit055) = lit1055"
  unfolding lit055_val lit1055_val by (subst fl_eval [of _ 52]) (simp_all add: rne_def)

lemma lit_signs:
  "0 < lit03928" "lit03928 < 1" "1 \<le> lit1292" "0 < lit055" "0 < lit1055" "0 < lit05"
  "0 \<le> RED" "0 \<le> GREEN" "0 \<le> BLUE"
  by (simp_all add: lit03928_val lit1292_val lit055_val lit1055_val lit05_val
      RED_val GREEN_val BLUE_val)

lemma GAMMA_nonneg: "0 \<le> GAMMA"
  using fl_mono [of 0 "2.4"] by (simp add: GAMMA_def fl_zero)

lemma unitPow_roundedPowr: "unitPow roundedPowr"
proof -
  have "0 \<le> roundedPowr x GAMMA \<and> roundedPowr x GAMMA \<le> 1" if x: "0 < x \<and> x \<le> 1" for x
  proof -
    from x have "x powr GAMMA \<le> 1 powr GAMMA"
      by (intro powr_mono2 GAMMA_nonneg) simp_all
    then have "0 \<le> x powr GAMMA" "x powr GAMMA \<le> 1"
      by simp_all
    then show ?thesis
      unfolding roundedPowr_def by (rule fl_unit)
  qed
  moreover have "roundedPowr 1 GAMMA = 1"
    by (simp add: roundedPowr_def fl_one)
  ultimately show ?thesis
    by (simp add: unitPow_def)
qed

lemma linearize_bounds:
  assumes pw: "unitPow mathPow" and "0 \<le> v0" and "v0 \<le> 255"
  shows "0 \<le> linearize mathPow v0 \<and> linearize mathPow v0 \<le> 1"
proof -
  define v where "v = fl (v0 / 255)"
  from assms(2,3) have "0 \<le> v0 / 255" "v0 / 255 \<le> 1"
    by simp_all
  then have v: "0 \<le> v" "v \<le> 1"
    unfolding v_def by (simp_all add: fl_unit)
  show ?thesis
  proof (cases "v \<le> lit03928")
    case True
    from v lit_signs(3) have "0 \<le> v / lit1292" "v / lit1292 \<le> 1"
      by (simp_all add: field_simps)
    then have "0 \<le> fl (v / lit1292) \<and> fl (v / lit1292) \<le> 1"
      by (rule fl_unit)
    with True show ?thesis
      by (simp add: linearize_lit v_def [symmetric])
  next
    case False
    define t where "t = fl (v + lit055)"
    from v lit_signs(4) have "0 < v + lit055" "v + lit055 \<le> 1 + lit055"
      by simp_all
    then have "0 < t" "t \<le> fl (1 + lit055)"
      unfolding t_def by (simp_all add: fl_pos fl_mono)
    then have t: "0 < t" "t \<le> lit1055"
      by (simp_all add: one_plus_lit055)
    with lit_signs(5) have q: "0 < t / lit1055" "t / lit1055 \<le> 1"
      by simp_all
    from q(1) have "0 < fl (t / lit1055)"
      by (rule fl_pos)
    moreover from q have "fl (t / lit1055) \<le> 1"
      by (simp add: fl_unit)
    ultimately have "0 \<le> mathPow (fl (t / lit1055)) GAMMA \<and> mathPow (fl (t / lit1055)) GAMMA \<le> 1"
      using pw by (simp add: unitPow_def)
    with False show ?thesis
      by (simp add: linearize_lit v_def [symmetric] t_def [symmetric])
  qed
qed

lemma weighted:
  assumes "0 \<le> a" and "a \<le> 1" and "0 \<le> w" and "fl w = w"
  shows "0 \<le> fl (a * w) \<and> fl (a * w) \<le> w"
proof -
  from assms have "0 \<le> a * w" "a * w \<le> w"
    by (simp_all add: mult_left_le_one_le)
  with fl_mono [of 0 "a * w"] fl_mono [of "a * w" w] assms(4) show ?thesis
    by (simp add: fl_zero)
qed

lemma luminance_bounds:
  assumes pw: "unitPow mathPow"
    and "0 \<le> r" "r \<le> 255" "0 \<le> g" "g \<le> 255" "0 \<le> b" "b \<le> 255"
  shows "0 \<le> luminance mathPow r g b \<and> luminance mathPow r g b \<le> 1"
proof -
  define p where "p = fl (linearize mathPow r * RED)"
  define q where "q = fl (linearize mathPow g * GREEN)"
  define s where "s = fl (linearize mathPow b * BLUE)"
  from linearize_bounds [OF pw, of r] assms have "0 \<le> p \<and> p \<le> RED"
    unfolding p_def by (intro weighted lit_signs fl_RED) simp_all
  moreover from linearize_bounds [OF pw, of g] assms have "0 \<le> q \<and> q \<le> GREEN"
    unfolding q_def by (intro weighted lit_signs fl_GREEN) simp_all
  moreover from linearize_bounds [OF pw, of b] assms have "0 \<le> s \<and> s \<le> BLUE"
    unfolding s_def by (intro weighted lit_signs fl_BLUE) simp_all
  ultimately have pqs: "0 \<le> p" "p \<le> RED" "0 \<le> q" "q \<le> GREEN" "0 \<le> s" "s \<le> BLUE"
    by simp_all
  then have "0 \<le> p + q" "p + q \<le> RED + GREEN"
    by simp_all
  then have pq: "0 \<le> fl (p + q)" "fl (p + q) \<le> fl (RED + GREEN)"
    using fl_mono [of 0 "p + q"] fl_mono [of "p + q" "RED + GREEN"] by (simp_all add: fl_zero)
  with pqs have "0 \<le> fl (p + q) + s" "fl (p + q) + s \<le> fl (RED + GREEN) + BLUE"
    by simp_all
  then have "0 \<le> fl (fl (p + q) + s)" "fl (fl (p + q) + s) \<le> fl (fl (RED + GREEN) + BLUE)"
    using fl_mono [of 0 "fl (p + q) + s"] fl_mono [of "fl (p + q) + s" "fl (RED + GREEN) + BLUE"]
    by (simp_all add: fl_zero)
  then show ?thesis
    by (simp add: luminance_def p_def q_def s_def sum_weights)
qed

lemma validRgb_luminance:
  assumes "unitPow mathPow" and "validRgb c"
  shows "0 \<le> luminance mathPow (c ! 0) (c ! 1) (c ! 2)
       \<and> luminance mathPow (c ! 0) (c ! 1) (c ! 2) \<le> 1"
proof -
  from assms(2) obtain r g b where c: "c = [r, g, b]"
    by (auto simp: validRgb_def length_Suc_conv numeral_eq_Suc)
  with assms show ?thesis
    by (simp add: validRgb_def luminance_bounds)
qed

lemma ratio_bounds:
  assumes "0 \<le> x" "x \<le> 1" "0 \<le> y" "y \<le> 1"
  shows "fl (min x y + lit05) \<noteq> 0
       \<and> 1 \<le> fl (fl (max x y + lit05) / fl (min x y + lit05))
       \<and> fl (fl (max x y + lit05) / fl (min x y + lit05)) \<le> 21"
proof -
  define num where "num = fl (max x y + lit05)"
  define den where "den = fl (min x y + lit05)"
  define top where "top = fl (1 + lit05)"
  note c = lit_signs(6)
  from assms c have "0 \<le> lit05" "lit05 \<le> min x y + lit05"
    "min x y + lit05 \<le> max x y + lit05" "max x y + lit05 \<le> 1 + lit05"
    by simp_all
  then have "fl lit05 \<le> den" "den \<le> num" "num \<le> top"
    unfolding den_def num_def top_def
    by (meson fl_mono order_trans)+
  then have chain: "lit05 \<le> den" "den \<le> num" "num \<le> top"
    by (simp_all add: fl_lit05)
  with c have den: "0 < den"
    by simp
  with chain have "1 \<le> num / den"
    by simp
  then have lower: "1 \<le> fl (num / den)"
    by (rule fl_ge_one)
  from chain c den have le: "num / den \<le> top / lit05"
    by (simp add: frac_le)
  from den chain have "0 \<le> num / den"
    by simp
  then have "fl (num / den) \<le> fl (top / lit05)"
    using le by (rule fl_mono)
  then have upper: "fl (num / den) \<le> 21"
    by (simp add: top_def ratio_21)
  from den lower upper have "den \<noteq> 0 \<and> 1 \<le> fl (num / den) \<and> fl (num / den) \<le> 21"
    by simp
  then show ?thesis
    unfolding num_def den_def .
qed

lemma linearize_black: "linearize mathPow 0 = 0"
  using lit_signs(1) by (simp add: linearize_lit fl_zero)

lemma linearize_white:
  assumes "unitPow mathPow"
  shows "linearize mathPow 255 = 1"
proof -
  from lit_signs(2) have "\<not> 1 \<le> lit03928"
    by simp
  moreover from lit_signs(5) have "fl (fl (1 + lit055) / lit1055) = 1"
    by (simp add: one_plus_lit055 fl_one)
  ultimately show ?thesis
    using assms by (simp add: linearize_lit fl_one unitPow_def)
qed

lemma luminance_black: "luminance mathPow 0 0 0 = 0"
  by (simp add: luminance_def linearize_black fl_zero)

lemma luminance_white:
  assumes "unitPow mathPow"
  shows "luminance mathPow 255 255 255 = 1"
  by (simp add: luminance_def linearize_white [OF assms] fl_RED fl_GREEN fl_BLUE sum_weights)

text \<open>
  C2. With a \<^verbatim>\<open>Math.pow\<close> as above, for every pair of valid triples the contrast is a
  number in the closed interval \<open>[1, 21]\<close>, and the contrast of black \<open>[0, 0, 0]\<close> and
  white \<open>[255, 255, 255]\<close> is exactly 21, in the arithmetic of doubles.
\<close>

theorem contrast_range:
  assumes "unitPow mathPow"
  shows "(validRgb a \<and> validRgb b \<longrightarrow>
            (\<exists>x. contrast mathPow a b = Some x \<and> 1 \<le> x \<and> x \<le> 21))
       \<and> contrast mathPow [0, 0, 0] [255, 255, 255] = Some 21"
proof (intro conjI impI)
  assume v: "validRgb a \<and> validRgb b"
  let ?x = "luminance mathPow (a ! 0) (a ! 1) (a ! 2)"
  let ?y = "luminance mathPow (b ! 0) (b ! 1) (b ! 2)"
  from v validRgb_luminance [OF assms, of a] validRgb_luminance [OF assms, of b]
  have bounds: "0 \<le> ?x" "?x \<le> 1" "0 \<le> ?y" "?y \<le> 1"
    by simp_all
  from v have len: "\<not> (length a < 3 \<or> length b < 3)"
    by (simp add: validRgb_def)
  from ratio_bounds [OF bounds]
  have nz: "fl (min ?x ?y + lit05) \<noteq> 0"
    and range: "1 \<le> fl (fl (max ?x ?y + lit05) / fl (min ?x ?y + lit05))"
      "fl (fl (max ?x ?y + lit05) / fl (min ?x ?y + lit05)) \<le> 21"
    by simp_all
  have "contrast mathPow a b = Some (fl (fl (max ?x ?y + lit05) / fl (min ?x ?y + lit05)))"
    using nz len by (simp add: contrast_lit Let_def)
  with range show "\<exists>x. contrast mathPow a b = Some x \<and> 1 \<le> x \<and> x \<le> 21"
    by blast
next
  from lit_signs(6) have "fl lit05 \<noteq> 0"
    by (simp add: fl_lit05)
  then show "contrast mathPow [0, 0, 0] [255, 255, 255] = Some 21"
    by (simp add: contrast_lit luminance_black luminance_white [OF assms] fl_lit05 ratio_21)
qed

theorem contrast_range_witness:
  "unitPow roundedPowr \<and> validRgb [0, 0, 0] \<and> validRgb [255, 87, 51]
   \<and> (\<exists>x. contrast roundedPowr [0, 0, 0] [255, 87, 51] = Some x \<and> 1 \<le> x \<and> x \<le> 21)
   \<and> contrast roundedPowr [0, 0, 0] [255, 255, 255] = Some 21"
proof -
  have v: "validRgb [0, 0, 0] \<and> validRgb [255, 87, 51]"
    by (simp add: validRgb_def)
  from contrast_range [OF unitPow_roundedPowr, of "[0, 0, 0]" "[255, 87, 51]"] v unitPow_roundedPowr
  show ?thesis
    by blast
qed

text \<open>
  C7. With a \<^verbatim>\<open>Math.pow\<close> as above, the contrast is symmetric,
  \<^verbatim>\<open>contrast(a, b) = contrast(b, a)\<close> for valid triples \<open>a\<close> and \<open>b\<close>, and the contrast of
  a valid triple with itself is 1.
\<close>

theorem contrast_symmetric:
  assumes "unitPow mathPow" and "validRgb a" and "validRgb b"
  shows "(\<exists>x. contrast mathPow a b = Some x \<and> contrast mathPow b a = Some x)
       \<and> contrast mathPow a a = Some 1"
proof -
  let ?x = "luminance mathPow (a ! 0) (a ! 1) (a ! 2)"
  let ?y = "luminance mathPow (b ! 0) (b ! 1) (b ! 2)"
  from assms validRgb_luminance [OF assms(1), of a] validRgb_luminance [OF assms(1), of b]
  have bounds: "0 \<le> ?x" "?x \<le> 1" "0 \<le> ?y" "?y \<le> 1"
    by simp_all
  from ratio_bounds [OF bounds] have nz: "fl (min ?x ?y + lit05) \<noteq> 0"
    by simp
  from ratio_bounds [OF bounds(1,2) bounds(1,2)] have nza: "fl (?x + lit05) \<noteq> 0"
    by simp
  from assms have len: "\<not> length a < 3" "\<not> length b < 3"
    by (simp_all add: validRgb_def)
  have ab: "contrast mathPow a b = Some (fl (fl (max ?x ?y + lit05) / fl (min ?x ?y + lit05)))"
    using nz len by (simp add: contrast_lit Let_def)
  have ba: "contrast mathPow b a = Some (fl (fl (max ?x ?y + lit05) / fl (min ?x ?y + lit05)))"
    using nz len by (simp add: contrast_lit Let_def max.commute min.commute)
  have aa: "contrast mathPow a a = Some 1"
    using nza len by (simp add: contrast_lit Let_def fl_one)
  from ab ba aa show ?thesis
    by simp
qed

theorem contrast_symmetric_witness:
  "unitPow roundedPowr \<and> validRgb [255, 87, 51] \<and> validRgb [0, 128, 255]
   \<and> (\<exists>x. contrast roundedPowr [255, 87, 51] [0, 128, 255] = Some x
          \<and> contrast roundedPowr [0, 128, 255] [255, 87, 51] = Some x)
   \<and> contrast roundedPowr [255, 87, 51] [255, 87, 51] = Some 1"
proof -
  have a: "validRgb [255, 87, 51]" and b: "validRgb [0, 128, 255]"
    by (simp_all add: validRgb_def)
  from contrast_symmetric [OF unitPow_roundedPowr a b] a b unitPow_roundedPowr show ?thesis
    by blast
qed

section \<open>Average colour: the pass over the pixel buffer\<close>


lemma length_bytes: "length (bytes px) = 4 * length px"
  by (induction px) (simp_all add: bytes_def)

lemma bytes_Cons: "bytes (p # ps) = [red p, green p, blue p, alpha p] @ bytes ps"
  by (simp add: bytes_def)

lemma sumLoop_bytes:
  "sumLoop (pre @ bytes px) (length pre) (Num r, Num g, Num b)
     = (Num (r + channelSum red px), Num (g + channelSum green px), Num (b + channelSum blue px))"
proof (induction px arbitrary: pre r g b)
  case Nil
  show ?case
    by (simp add: sumLoop.simps [of _ "length pre"] bytes_def channelSum_def)
next
  case (Cons p ps)
  define data where "data = pre @ bytes (p # ps)"
  let ?pre = "pre @ [red p, green p, blue p, alpha p]"
  have split: "data = ?pre @ bytes ps"
    by (simp add: data_def bytes_Cons)
  have len: "length ?pre = length pre + 4"
    by simp
  have inside: "length pre < length data"
    by (simp add: data_def bytes_Cons)
  have reads: "readByte data (length pre) = Num (uint (red p))"
    "readByte data (length pre + 1) = Num (uint (green p))"
    "readByte data (length pre + 2) = Num (uint (blue p))"
    by (simp_all add: readByte_def data_def bytes_Cons nth_append)
  have "sumLoop data (length pre) (Num r, Num g, Num b)
          = sumLoop data (length pre + 4)
              (plusNum (Num r) (readByte data (length pre)),
               plusNum (Num g) (readByte data (length pre + 1)),
               plusNum (Num b) (readByte data (length pre + 2)))"
    using inside by (subst sumLoop.simps) (simp only: if_True)
  also have "\<dots> = sumLoop data (length pre + 4)
              (Num (r + uint (red p)), Num (g + uint (green p)), Num (b + uint (blue p)))"
    by (simp only: reads plusNum.simps)
  also have "\<dots> = sumLoop (?pre @ bytes ps) (length ?pre)
              (Num (r + uint (red p)), Num (g + uint (green p)), Num (b + uint (blue p)))"
    by (simp only: split len)
  also have "\<dots> = (Num (r + uint (red p) + channelSum red ps),
                    Num (g + uint (green p) + channelSum green ps),
                    Num (b + uint (blue p) + channelSum blue ps))"
    by (rule Cons.IH)
  finally show ?case
    by (simp add: data_def channelSum_def add.assoc)
qed

lemma floor_rat_div: "\<lfloor>rat_of_int s / rat_of_nat n\<rfloor> = s div int n"
proof -
  have "rat_of_nat n = rat_of_int (int n)"
    by simp
  then show ?thesis
    by (simp only: floor_divide_of_int_eq)
qed

lemma averageColor_bytes:
  assumes "px \<noteq> []"
  shows "averageColor (bytes px)
           = rgbToHex (Num (channelSum red px div int (length px)))
                      (Num (channelSum green px div int (length px)))
                      (Num (channelSum blue px div int (length px)))"
proof -
  from assms have n: "0 < length px"
    by simp
  have loop: "sumLoop (bytes px) 0 (Num 0, Num 0, Num 0)
                = (Num (channelSum red px), Num (channelSum green px), Num (channelSum blue px))"
    using sumLoop_bytes [of "[]" px 0 0 0] by simp
  have count: "(of_nat (length (bytes px)) / 4 :: rat) \<noteq> 0"
    using n by (simp add: length_bytes)
  show ?thesis
    using count
    by (simp add: averageColor_def loop Let_def) (simp add: length_bytes floor_rat_div)
qed

lemma channelSum_solid:
  assumes "\<forall>p\<in>set px. ch p = v"
  shows "channelSum ch px = int (length px) * uint v"
  using assms by (induction px) (simp_all add: channelSum_def algebra_simps)

lemma channelSum_black_white:
  assumes "\<forall>p\<in>set px. isBlack p \<or> isWhite p"
  shows "channelSum red px = 255 * int (length (filter isWhite px))
       \<and> channelSum green px = 255 * int (length (filter isWhite px))
       \<and> channelSum blue px = 255 * int (length (filter isWhite px))
       \<and> length px = length (filter isBlack px) + length (filter isWhite px)"
  using assms
proof (induction px)
  case Nil
  show ?case by (simp add: channelSum_def)
next
  case (Cons p ps)
  then have IH: "channelSum red ps = 255 * int (length (filter isWhite ps))"
    "channelSum green ps = 255 * int (length (filter isWhite ps))"
    "channelSum blue ps = 255 * int (length (filter isWhite ps))"
    "length ps = length (filter isBlack ps) + length (filter isWhite ps)"
    by simp_all
  have step: "\<And>ch. channelSum ch (p # ps) = uint (ch p) + channelSum ch ps"
    by (simp add: channelSum_def)
  from Cons.prems have "isBlack p \<or> isWhite p"
    by simp
  then show ?case
  proof
    assume b: "isBlack p"
    then have "\<not> isWhite p"
      by (simp add: isBlack_def isWhite_def)
    with b show ?thesis
      by (simp add: step IH) (simp add: isBlack_def)
  next
    assume w: "isWhite p"
    then have "\<not> isBlack p"
      by (simp add: isBlack_def isWhite_def)
    with w show ?thesis
      by (simp add: step IH) (simp add: isWhite_def)
  qed
qed

lemma half_div:
  assumes "0 < k"
  shows "(255 * int k) div int (k + k) = 127"
proof -
  have "(255 * int k) div int (k + k) = (255 * int k) div (2 * int k)"
    by simp
  also have "\<dots> = 255 div 2"
    using assms by (simp only: mult.commute [of _ "int k"]) simp
  finally show ?thesis by simp
qed

lemma hex_127: "rgbToHexString (Num 127) (Num 127) (Num 127) = ''#7f7f7f''"
  using componentToHex_byte [of 127] by (simp add: rgbToHexString_def rgbToHex_def hexDigit_def)

section \<open>Average colour: the operation\<close>

lemma usable_browser: "usable browser"
  by (simp add: usable_def browser_def)

lemma setSource_supported:
  assumes "supported source"
  shows "\<exists>h'. setSource e source img h = Inr h'"
  using assms by (cases source) (simp_all add: supported_def)

lemma computeAverageColor_pixels:
  assumes "usable e" and "supported source"
  shows "fst (computeAverageColor e (Loaded w ht (Pixels data)) source h) = Resolved (averageColor data)"
proof -
  obtain img h2 where n: "newImage (emit GetContext (emit HideCanvas (emit CreateCanvas h))) = (img, h2)"
    by (cases "newImage (emit GetContext (emit HideCanvas (emit CreateCanvas h)))")
  from setSource_supported [OF assms(2)] obtain h3 where s: "setSource e source img h2 = Inr h3"
    by blast
  from assms(1) show ?thesis
    by (simp add: computeAverageColor_def usable_def n s onloadHandler_def Let_def)
qed

text \<open>
  C3. On a host that provides what the operation needs, for any supported source whose
  decode succeeds with at least one pixel, \<^verbatim>\<open>computeAverageColor\<close> resolves with
  \<^verbatim>\<open>rgbToHexString\<close> of the three channel sums, each divided by the number of pixels and
  floored. So an image whose pixels all have the colour \<open>(r, g, b)\<close> resolves with
  \<^verbatim>\<open>rgbToHexString(r, g, b)\<close>, and an image with as many black as white pixels, and no
  others, resolves with 127 in every channel.
\<close>

theorem computeAverageColor_mean:
  assumes "usable e" and "supported source" and "px \<noteq> []"
  shows "fst (computeAverageColor e (Loaded w ht (Pixels (bytes px))) source h)
           = Resolved (rgbToHexString (Num (channelSum red px div int (length px)))
                                      (Num (channelSum green px div int (length px)))
                                      (Num (channelSum blue px div int (length px))))
       \<and> ((\<forall>p\<in>set px. red p = r \<and> green p = g \<and> blue p = b) \<longrightarrow>
            fst (computeAverageColor e (Loaded w ht (Pixels (bytes px))) source h)
              = Resolved (rgbToHexString (Num (uint r)) (Num (uint g)) (Num (uint b))))
       \<and> ((\<forall>p\<in>set px. isBlack p \<or> isWhite p)
            \<and> length (filter isBlack px) = length (filter isWhite px) \<longrightarrow>
            fst (computeAverageColor e (Loaded w ht (Pixels (bytes px))) source h)
              = Resolved (rgbToHexString (Num 127) (Num 127) (Num 127)))"
proof -
  let ?out = "fst (computeAverageColor e (Loaded w ht (Pixels (bytes px))) source h)"
  let ?n = "int (length px)"
  from assms(3) have n: "0 < length px"
    by simp
  have mean: "?out = Resolved (rgbToHexString (Num (channelSum red px div ?n))
                                      (Num (channelSum green px div ?n))
                                      (Num (channelSum blue px div ?n)))"
    by (simp only: computeAverageColor_pixels [OF assms(1,2)] averageColor_bytes [OF assms(3)]
        rgbToHexString_def)
  have solid: "?out = Resolved (rgbToHexString (Num (uint r)) (Num (uint g)) (Num (uint b)))"
    if s: "\<forall>p\<in>set px. red p = r \<and> green p = g \<and> blue p = b"
  proof -
    from s have "channelSum red px = ?n * uint r" "channelSum green px = ?n * uint g"
      "channelSum blue px = ?n * uint b"
      by (simp_all add: channelSum_solid)
    with n show ?thesis
      by (simp add: mean)
  qed
  have half: "?out = Resolved (rgbToHexString (Num 127) (Num 127) (Num 127))"
    if bw: "(\<forall>p\<in>set px. isBlack p \<or> isWhite p)
            \<and> length (filter isBlack px) = length (filter isWhite px)"
  proof -
    let ?k = "length (filter isWhite px)"
    from bw channelSum_black_white [of px]
    have sums: "channelSum red px = 255 * int ?k" "channelSum green px = 255 * int ?k"
      "channelSum blue px = 255 * int ?k" and len: "length px = ?k + ?k"
      by simp_all
    from len n have "0 < ?k"
      by simp
    from half_div [OF this] show ?thesis
      by (simp only: mean sums len)
  qed
  from mean solid half show ?thesis
    by blast
qed

theorem computeAverageColor_mean_witness:
  "usable browser \<and> supported (Locator ''a.png'')
   \<and> [RGBA 0 0 0 255, RGBA 255 255 255 255] \<noteq> []
   \<and> fst (computeAverageColor browser
             (Loaded 2 1 (Pixels (bytes [RGBA 0 0 0 255, RGBA 255 255 255 255])))
             (Locator ''a.png'') emptyPage) = Resolved ''#7f7f7f''"
proof -
  let ?px = "[RGBA 0 0 0 255, RGBA 255 255 255 255]"
  have s: "supported (Locator ''a.png'')"
    by (simp add: supported_def)
  have ne: "?px \<noteq> []"
    by simp
  have bw: "(\<forall>p\<in>set ?px. isBlack p \<or> isWhite p)
      \<and> length (filter isBlack ?px) = length (filter isWhite ?px)"
    by (simp add: isBlack_def isWhite_def)
  from computeAverageColor_mean [OF usable_browser s ne, of 2 1 emptyPage 0 0 0] bw
  have "fst (computeAverageColor browser (Loaded 2 1 (Pixels (bytes ?px))) (Locator ''a.png'') emptyPage)
          = Resolved (rgbToHexString (Num 127) (Num 127) (Num 127))"
    by blast
  with usable_browser s ne show ?thesis
    by (simp only: hex_127 simp_thms)
qed






text \<open>
  C6. On a host without \<^verbatim>\<open>window\<close> or without \<^verbatim>\<open>document\<close> the operation fails with
  the environment error whatever the source and whatever a decode would have answered, and
  it leaves the host as it was: no canvas, no image, no object URL, no call at all.
\<close>

theorem computeAverageColor_env:
  assumes "\<not> hasWindow e \<or> \<not> hasDocument e"
  shows "computeAverageColor e d source h = (Rejected EnvironmentError, h)"
  using assms by (auto simp: computeAverageColor_def)

theorem computeAverageColor_env_witness:
  "\<not> hasWindow node
   \<and> computeAverageColor node (Loaded 1 1 (Pixels [255, 0, 0, 255])) (Locator ''a.png'') emptyPage
       = (Rejected EnvironmentError, emptyPage)"
proof -
  have n: "\<not> hasWindow node"
    by (simp add: node_def)
  then have "\<not> hasWindow node \<or> \<not> hasDocument node"
    by blast
  from computeAverageColor_env [OF this] n show ?thesis
    by blast
qed

subsection \<open>Object URLs\<close>

lemma revocations_emit:
  "revocations (emit x h) = revocations h + (case x of RevokeObjectURL u \<Rightarrow> 1 | _ \<Rightarrow> 0)"
  by (cases x) (simp_all add: revocations_def emit_def)

lemma revocations_update: "revocations (update a f h) = revocations h"
  by (simp add: revocations_def update_def)

lemma revocations_newImage: "revocations (snd (newImage h)) = revocations h"
  by (simp add: newImage_def Let_def revocations_emit) (simp add: revocations_def)

text \<open>
  How often a \<^verbatim>\<open>File\<close> source has its object URL revoked: once when the pixels are read
  back, and not at all on the error event, on an exception of \<^verbatim>\<open>drawImage\<close> or
  \<^verbatim>\<open>getImageData\<close>, or while no event arrives.
\<close>

lemma blob_revocations:
  assumes "usable e"
  shows "revocations (snd (computeAverageColor e d (Blob f) h))
           = revocations h + (case d of Loaded w ht (Pixels data) \<Rightarrow> 1 | _ \<Rightarrow> 0)"
proof -
  from assms have ok: "hasWindow e" "hasDocument e" "hasContext2d e"
    by (simp_all add: usable_def)
  obtain img h2 where new: "newImage (emit GetContext (emit HideCanvas (emit CreateCanvas h))) = (img, h2)"
    by (cases "newImage (emit GetContext (emit HideCanvas (emit CreateCanvas h)))")
  then have "h2 = snd (newImage (emit GetContext (emit HideCanvas (emit CreateCanvas h))))"
    by simp
  then have r2: "revocations h2 = revocations h"
    by (simp add: revocations_newImage revocations_emit)
  show ?thesis
  proof (cases d)
    case NeverSignals
    then show ?thesis
      by (simp add: computeAverageColor_def ok new revocations_update revocations_emit r2)
  next
    case LoadFailed
    then show ?thesis
      by (simp add: computeAverageColor_def ok new onerrorHandler_def revocations_update
          revocations_emit r2)
  next
    case (Loaded w ht rb)
    then show ?thesis
      by (cases rb)
         (simp_all add: computeAverageColor_def ok new onloadHandler_def Let_def
            revocations_update revocations_emit r2)
  qed
qed

text \<open>
  C4. The claim is that the object URL created for a \<^verbatim>\<open>File\<close> is released exactly once
  after the decode attempt, on success and on failure. On the failure path the code never
  releases it: for a file that does not decode, the operation rejects with the load error,
  the trace ends with the creation of the URL, and no revocation is recorded.
\<close>

theorem blob_load_failure_leaks:
  "fst (computeAverageColor browser LoadFailed (Blob (File ''notes.txt'')) emptyPage) = Rejected ImageLoadError
   \<and> trace (snd (computeAverageColor browser LoadFailed (Blob (File ''notes.txt'')) emptyPage))
       = [CreateCanvas, HideCanvas, GetContext, NewImage 0, CreateObjectURL (File ''notes.txt'') ''blob:0'']
   \<and> revocations (snd (computeAverageColor browser LoadFailed (Blob (File ''notes.txt'')) emptyPage)) = 0"
  by (simp add: computeAverageColor_def browser_def emptyPage_def newImage_def emit_def update_def
      onerrorHandler_def revocations_def Let_def)

theorem blob_load_failure_leaks_witness:
  "hasWindow browser \<and> hasDocument browser \<and> hasContext2d browser
   \<and> revocations (snd (computeAverageColor browser LoadFailed (Blob (File ''notes.txt'')) emptyPage)) = 0"
  using blob_load_failure_leaks by (simp add: browser_def)

subsection \<open>The image element passed in\<close>

lemma images_emit: "images (emit x h) = images h"
  by (simp add: emit_def)

lemma nextAddr_emit: "nextAddr (emit x h) = nextAddr h"
  by (simp add: emit_def)

lemma images_update_other: "a \<noteq> p \<Longrightarrow> images (update a f h) p = images h p"
  by (simp add: update_def)

lemma images_update_same: "images (update a f h) a = f (images h a)"
  by (simp add: update_def)

lemma newImage_fresh:
  "fst (newImage h) = nextAddr h
   \<and> images (snd (newImage h)) (nextAddr h) = blankImage
   \<and> (\<forall>p. p \<noteq> nextAddr h \<longrightarrow> images (snd (newImage h)) p = images h p)"
  by (simp add: newImage_def Let_def emit_def)

lemma onloadHandler_element_images:
  "images (snd (onloadHandler (Element p) img rb h)) = images h"
  by (cases rb) (simp_all add: onloadHandler_def Let_def images_emit)

lemma onloadHandler_element_trace:
  "\<exists>rest. trace (snd (onloadHandler (Element p) img rb h))
      = trace h @ [ResizeCanvas (width (images h img)) (height (images h img)), DrawImage img] @ rest
    \<and> (\<forall>a. DrawImage a \<notin> set rest)"
  by (cases rb) (simp_all add: onloadHandler_def Let_def emit_def)

lemma onerrorHandler_images: "images (snd (onerrorHandler h)) = images h"
  by (simp add: onerrorHandler_def)

text \<open>
  C10. For an image element of the page as the source (an element that exists, so its
  address is below the next free one), the element is the same after the operation as
  before, in every field, whatever the host and the decode answer. On a usable
  host the \<^verbatim>\<open>src\<close> and \<^verbatim>\<open>crossOrigin\<close> of the element are copied to the image that
  \<^verbatim>\<open>new Image()\<close> created, and that new image, not the element, is the one drawn.
\<close>

theorem computeAverageColor_element_unchanged:
  assumes "p < nextAddr h"
  shows "images (snd (computeAverageColor e d (Element p) h)) p = images h p
       \<and> (usable e \<longrightarrow>
            src (images (snd (computeAverageColor e d (Element p) h)) (nextAddr h)) = src (images h p)
          \<and> crossOrigin (images (snd (computeAverageColor e d (Element p) h)) (nextAddr h))
              = crossOrigin (images h p)
          \<and> (d \<noteq> LoadFailed \<and> d \<noteq> NeverSignals \<longrightarrow>
               DrawImage (nextAddr h) \<in> set (trace (snd (computeAverageColor e d (Element p) h)))
             \<and> DrawImage p \<notin> set (trace (snd (computeAverageColor e d (Element p) h))) - set (trace h)))"
proof (cases "usable e")
  case False
  then show ?thesis
    by (auto simp: computeAverageColor_def usable_def images_emit)
next
  case True
  define h1 where "h1 = emit GetContext (emit HideCanvas (emit CreateCanvas h))"
  define img where "img = nextAddr h"
  define h2 where "h2 = snd (newImage h1)"
  define h3 where "h3 = update img (\<lambda>i. i\<lparr>src := src (images h2 p), crossOrigin := crossOrigin (images h2 p)\<rparr>) h2"
  define h4 where "h4 = update img (\<lambda>i. i\<lparr>onload := Some ProcessImage, onerror := Some RejectLoad\<rparr>) h3"
  have next1: "nextAddr h1 = nextAddr h" and im1: "images h1 = images h"
    by (simp_all add: h1_def nextAddr_emit images_emit)
  have new: "newImage h1 = (img, h2)"
    using newImage_fresh [of h1] by (simp add: img_def h2_def next1 prod_eq_iff)
  from assms have ne: "img \<noteq> p"
    by (simp add: img_def)
  have im2: "images h2 p = images h p"
    using newImage_fresh [of h1] ne by (simp add: h2_def next1 im1 img_def)
  have im4p: "images h4 p = images h p"
    using ne by (simp add: h4_def h3_def images_update_other im2)
  have tr4: "trace h4 = trace h @ [CreateCanvas, HideCanvas, GetContext, NewImage img]"
    by (simp add: h4_def h3_def h2_def h1_def update_def newImage_def emit_def Let_def img_def)
  have im4i: "src (images h4 img) = src (images h p) \<and> crossOrigin (images h4 img) = crossOrigin (images h p)"
    by (simp add: h4_def h3_def update_def im2)
  from True have ok: "hasWindow e" "hasDocument e" "hasContext2d e"
    by (simp_all add: usable_def)
  show ?thesis
  proof (cases d)
    case NeverSignals
    have "computeAverageColor e d (Element p) h = (Pending, h4)"
      by (simp add: computeAverageColor_def ok NeverSignals h1_def [symmetric] new h3_def h4_def)
    with im4p im4i show ?thesis
      by (simp add: img_def NeverSignals)
  next
    case LoadFailed
    have "computeAverageColor e d (Element p) h = onerrorHandler h4"
      by (simp add: computeAverageColor_def ok LoadFailed h1_def [symmetric] new h3_def h4_def)
    with im4p im4i show ?thesis
      by (simp add: img_def onerrorHandler_def LoadFailed)
  next
    case (Loaded w ht rb)
    have "computeAverageColor e d (Element p) h
            = onloadHandler (Element p) img rb (update img (\<lambda>i. i\<lparr>width := w, height := ht\<rparr>) h4)"
      by (simp add: computeAverageColor_def ok Loaded h1_def [symmetric] new h3_def h4_def)
    then have res: "snd (computeAverageColor e d (Element p) h)
        = snd (onloadHandler (Element p) img rb (update img (\<lambda>i. i\<lparr>width := w, height := ht\<rparr>) h4))"
      by simp
    then have "images (snd (computeAverageColor e d (Element p) h))
        = images (update img (\<lambda>i. i\<lparr>width := w, height := ht\<rparr>) h4)"
      by (simp add: onloadHandler_element_images)
    with ne im4p im4i have fields:
      "images (snd (computeAverageColor e d (Element p) h)) p = images h p"
      "src (images (snd (computeAverageColor e d (Element p) h)) img) = src (images h p)"
      "crossOrigin (images (snd (computeAverageColor e d (Element p) h)) img) = crossOrigin (images h p)"
      by (simp_all add: update_def)
    from onloadHandler_element_trace
      [of p img rb "update img (\<lambda>i. i\<lparr>width := w, height := ht\<rparr>) h4"]
    obtain rest where
      tr: "trace (snd (computeAverageColor e d (Element p) h))
             = trace h @ [CreateCanvas, HideCanvas, GetContext, NewImage img,
                          ResizeCanvas w ht, DrawImage img] @ rest"
      and rest: "\<forall>a. DrawImage a \<notin> set rest"
      by (auto simp: res tr4 update_def)
    from rest have "DrawImage p \<notin> set rest"
      by blast
    with tr ne have draws:
      "DrawImage img \<in> set (trace (snd (computeAverageColor e d (Element p) h)))"
      "DrawImage p \<notin> set (trace (snd (computeAverageColor e d (Element p) h))) - set (trace h)"
      by auto
    from fields draws show ?thesis
      by (simp add: img_def)
  qed
qed

theorem computeAverageColor_element_unchanged_witness:
  "0 < nextAddr page
   \<and> images (snd (computeAverageColor browser (Loaded 1 1 (Pixels [10, 20, 30, 255]))
                     (Element 0) page)) 0 = photo
   \<and> src (images (snd (computeAverageColor browser (Loaded 1 1 (Pixels [10, 20, 30, 255]))
                          (Element 0) page)) 1) = ''photo.png''"
proof -
  have a: "0 < nextAddr page"
    by (simp add: page_def)
  have u: "usable browser"
    by (simp add: usable_def browser_def)
  have p: "images page 0 = photo" "nextAddr page = 1"
    by (simp_all add: page_def)
  from computeAverageColor_element_unchanged
    [OF a, of browser "Loaded 1 1 (Pixels [10, 20, 30, 255])"] u a
  show ?thesis
    by (simp add: p photo_def)
qed

end
